theory Spec2Isabelle
  imports
    Main
    "HOL-Library.Char_ord"
    "HOL-Library.List_Lexorder"
    "HOL-Library.Sublist"
    "HOL-Library.AList"
    "HOL-Library.Multiset"
begin

section \<open>Values of the program\<close>

text \<open>
  The program of \<^verbatim>\<open>src/app.js\<close> keeps a log of entries in one IndexedDB object store and
  moves them in and out as JSON. Its values are the values \<^verbatim>\<open>JSON.parse\<close> builds, which the
  program then mutates: \<^verbatim>\<open>null\<close>, booleans, numbers, strings, arrays and objects.

  \<^item> A string is a list of code units; the model has the code units below 256.
  \<^item> A number is the integer it denotes; \<open>num_to_string\<close> is its decimal numeral, which is
    what \<^verbatim>\<open>String\<close> gives for integers of magnitude below \<open>10^21\<close>. Three numbers that
    \<^verbatim>\<open>JSON.parse\<close> returns are no integers and have values of their own: \<^verbatim>\<open>Infinity\<close> and
    \<^verbatim>\<open>-Infinity\<close>, which it returns for a numeral beyond the range of a double such as
    \<^verbatim>\<open>1e400\<close> and \<^verbatim>\<open>-1e400\<close>, and the negative zero, which it returns for \<^verbatim>\<open>-0\<close>.
  \<^item> An object is the list of its own properties in enumeration order.
  \<^item> An array has its elements and, besides, the named properties assigned to it: line 133
    lets an array through (\<^verbatim>\<open>typeof [] === "object"\<close>) and lines 134 to 141 then assign
    \<^verbatim>\<open>id\<close>, \<^verbatim>\<open>item\<close> and the others to it.
  \<^item> \<^verbatim>\<open>undefined\<close>, the value of a property that is not there, is \<open>None\<close>.

  The platform enters as follows: the object store is a list of records in key order; the
  identifiers and clock readings come from two sources carried by the world; the collation
  of \<^verbatim>\<open>localeCompare\<close> is a parameter. The page (forms, lists, toasts), the service worker,
  finite numbers with a fraction or of magnitude \<open>10^21\<close> and more, code units from 256 on,
  a second tab writing to the same store, and transactions that the platform aborts are
  outside the model.
\<close>

datatype jsval =
    JNull
  | JBool bool
  | JNum int
  | JInf bool
  | JNegZero
  | JStr string
  | JArr "jsval list" "(string \<times> jsval) list"
  | JObj "(string \<times> jsval) list"

datatype error =
    InvalidJSON
  | MissingEntries
  | TypeError
  | DataError
  | ConstraintError

subsection \<open>Strings\<close>

text \<open>\<^verbatim>\<open>String.prototype.trim\<close> removes white space and line terminators from both ends;
  below 256 these are tab, line feed, vertical tab, form feed, carriage return, space and
  the no-break space.\<close>

definition is_ws :: "char \<Rightarrow> bool" where
  "is_ws c = (of_char c \<in> {9, 10, 11, 12, 13, 32, 160 :: nat})"

definition trim :: "string \<Rightarrow> string" where
  "trim s = rev (dropWhile is_ws (rev (dropWhile is_ws s)))"

text \<open>\<^verbatim>\<open>toLowerCase\<close> below 256: \<open>A\<close> to \<open>Z\<close> and the accented capitals \<open>0xC0\<close> to \<open>0xDE\<close>
  (the multiplication sign \<open>0xD7\<close> apart) move up by 32.\<close>

definition lower_char :: "char \<Rightarrow> char" where
  "lower_char c = (let n = of_char c :: nat in
     if (65 \<le> n \<and> n \<le> 90) \<or> (192 \<le> n \<and> n \<le> 222 \<and> n \<noteq> 215)
     then char_of (n + 32) else c)"

definition toLowerCase :: "string \<Rightarrow> string" where
  "toLowerCase s = map lower_char s"

text \<open>\<^verbatim>\<open>hay.includes(q)\<close>: \<open>q\<close> starts at some position of \<open>hay\<close>.\<close>

fun includes_str :: "string \<Rightarrow> string \<Rightarrow> bool" where
  "includes_str [] q = (q = [])"
| "includes_str (c # cs) q = (prefix q (c # cs) \<or> includes_str cs q)"

definition digit_char :: "nat \<Rightarrow> char" where
  "digit_char d = ''0123456789'' ! d"

function digits :: "nat \<Rightarrow> string" where
  "digits n = (if n < 10 then [digit_char n] else digits (n div 10) @ [digit_char (n mod 10)])"
  by pat_completeness auto
termination
  by (relation "measure id") auto

declare digits.simps [simp del]

definition num_to_string :: "int \<Rightarrow> string" where
  "num_to_string i = (if i < 0 then CHR ''-'' # digits (nat (- i)) else digits (nat i))"

subsection \<open>Conversions and property access\<close>

text \<open>\<^verbatim>\<open>!v\<close> is \<open>\<not> truthy v\<close>.\<close>

fun truthy :: "jsval \<Rightarrow> bool" where
  "truthy JNull = False"
| "truthy (JBool b) = b"
| "truthy (JNum n) = (n \<noteq> 0)"
| "truthy (JInf positive) = True"
| "truthy JNegZero = False"
| "truthy (JStr s) = (s \<noteq> [])"
| "truthy (JArr xs ps) = True"
| "truthy (JObj ps) = True"

text \<open>\<^verbatim>\<open>e && typeof e === "object"\<close>, the negation of the test of line 133.\<close>

fun is_object :: "jsval \<Rightarrow> bool" where
  "is_object (JArr xs ps) = True"
| "is_object (JObj ps) = True"
| "is_object v = False"

text \<open>
  \<^verbatim>\<open>String(v)\<close>, which is also the conversion of a template literal and of the argument of
  \<^verbatim>\<open>localeCompare\<close>. An object answers \<^verbatim>\<open>[object Object]\<close> through the inherited
  \<^verbatim>\<open>toString\<close>; a property of its own named \<^verbatim>\<open>toString\<close> hides that method, is not
  callable (it came from JSON), and the conversion raises a TypeError. An array joins the
  conversions of its elements with commas, \<^verbatim>\<open>null\<close> giving the empty string.
\<close>

fun to_string :: "jsval \<Rightarrow> error + string"
  and join_elems :: "jsval list \<Rightarrow> error + string" where
  "to_string JNull = Inr ''null''"
| "to_string (JBool b) = Inr (if b then ''true'' else ''false'')"
| "to_string (JNum n) = Inr (num_to_string n)"
| "to_string (JInf positive) = Inr (if positive then ''Infinity'' else ''-Infinity'')"
| "to_string JNegZero = Inr ''0''"
| "to_string (JStr s) = Inr s"
| "to_string (JArr xs ps) =
     (if ''toString'' \<in> fst ` set ps then Inl TypeError
      else if ''join'' \<in> fst ` set ps then Inr ''[object Array]''
      else join_elems xs)"
| "to_string (JObj ps) =
     (if ''toString'' \<in> fst ` set ps then Inl TypeError else Inr ''[object Object]'')"
| "join_elems [] = Inr []"
| "join_elems (x # xs) =
     (case (if x = JNull then Inr [] else to_string x) of
        Inl err \<Rightarrow> Inl err
      | Inr s \<Rightarrow>
          (if xs = [] then Inr s
           else (case join_elems xs of Inl err \<Rightarrow> Inl err | Inr t \<Rightarrow> Inr (s @ '','' @ t))))"

text \<open>The own enumerable properties of a value, as the spread of line 421 copies them and as
  \<^verbatim>\<open>e.id\<close> reads them: the named properties, after the index properties for an array.
  The program reads the properties \<^verbatim>\<open>entries\<close>, \<^verbatim>\<open>id\<close>, \<^verbatim>\<open>created_at\<close>, \<^verbatim>\<open>updated_at\<close>,
  \<^verbatim>\<open>item\<close>, \<^verbatim>\<open>location\<close>, \<^verbatim>\<open>inventory\<close>, \<^verbatim>\<open>date\<close> and \<^verbatim>\<open>notes\<close>; no prototype has one
  of these. Reading a property of \<^verbatim>\<open>null\<close> raises a TypeError.\<close>

fun own_props :: "jsval \<Rightarrow> (string \<times> jsval) list" where
  "own_props (JObj ps) = ps"
| "own_props (JArr xs ps) = zip (map digits [0..<length xs]) xs @ ps"
| "own_props (JStr s) = zip (map digits [0..<length s]) (map (\<lambda>c. JStr [c]) s)"
| "own_props v = []"

definition get_prop :: "jsval \<Rightarrow> string \<Rightarrow> jsval option" where
  "get_prop e k = map_of (own_props e) k"

definition read_prop :: "jsval \<Rightarrow> string \<Rightarrow> error + jsval option" where
  "read_prop e k = (if e = JNull then Inl TypeError else Inr (get_prop e k))"

text \<open>\<^verbatim>\<open>v || ""\<close> and \<^verbatim>\<open>v ?? ""\<close>.\<close>

definition or_empty :: "jsval option \<Rightarrow> jsval" where
  "or_empty v = (case v of None \<Rightarrow> JStr [] | Some x \<Rightarrow> if truthy x then x else JStr [])"

definition nullish_or_empty :: "jsval option \<Rightarrow> jsval" where
  "nullish_or_empty v = (case v of None \<Rightarrow> JStr [] | Some x \<Rightarrow> if x = JNull then JStr [] else x)"

text \<open>\<^verbatim>\<open>e.k = v\<close> for a property name that is not an index: the property keeps its place when
  it is there and is appended otherwise.\<close>

fun set_prop :: "jsval \<Rightarrow> string \<Rightarrow> jsval \<Rightarrow> jsval" where
  "set_prop (JObj ps) k v = JObj (AList.update k v ps)"
| "set_prop (JArr xs ps) k v = JArr xs (AList.update k v ps)"
| "set_prop e k v = e"

text \<open>
  A JSON text is modelled by the value that \<^verbatim>\<open>JSON.parse\<close> returns for it, \<open>None\<close> being a
  text that does not parse. Such a value has no named properties on its arrays:
  \<open>text_value\<close> leaves them out.

  \<^verbatim>\<open>JSON.stringify(v)\<close> is the text of \<open>json_of v\<close>: it leaves out the named properties of
  arrays, and it writes \<^verbatim>\<open>null\<close> for an infinite number and \<^verbatim>\<open>0\<close> for the negative zero. So
  \<open>json_of v\<close> is \<^verbatim>\<open>JSON.parse(JSON.stringify(v))\<close>.
\<close>

primrec text_value :: "jsval \<Rightarrow> jsval" where
  "text_value JNull = JNull"
| "text_value (JBool b) = JBool b"
| "text_value (JNum n) = JNum n"
| "text_value (JInf positive) = JInf positive"
| "text_value JNegZero = JNegZero"
| "text_value (JStr s) = JStr s"
| "text_value (JArr xs ps) = JArr (map text_value xs) []"
| "text_value (JObj ps) = JObj (map (map_prod id text_value) ps)"

primrec json_of :: "jsval \<Rightarrow> jsval" where
  "json_of JNull = JNull"
| "json_of (JBool b) = JBool b"
| "json_of (JNum n) = JNum n"
| "json_of (JInf positive) = JNull"
| "json_of JNegZero = JNum 0"
| "json_of (JStr s) = JStr s"
| "json_of (JArr xs ps) = JArr (map json_of xs) []"
| "json_of (JObj ps) = JObj (map (map_prod id json_of) ps)"

type_synonym json_text = "jsval option"

definition JSON_stringify :: "jsval \<Rightarrow> json_text" where
  "JSON_stringify v = Some (json_of v)"

definition JSON_parse :: "json_text \<Rightarrow> error + jsval" where
  "JSON_parse t = (case t of None \<Rightarrow> Inl InvalidJSON | Some v \<Rightarrow> Inr (text_value v))"

section \<open>The object store\<close>

text \<open>
  The store \<^verbatim>\<open>entries\<close> has the key path \<^verbatim>\<open>id\<close> (line 50): a record is stored under the key
  that its own \<^verbatim>\<open>id\<close> property converts to. Valid keys are numbers, strings and arrays of
  valid keys; keys are ordered numbers first, then strings, then arrays, and the store
  lists its records in key order. The infinite numbers are valid keys, below and above
  every other number, and the negative zero is the key \<open>0\<close>.
\<close>

datatype key = KNum int | KInf bool | KStr string | KArr "key list"

fun to_key :: "jsval \<Rightarrow> key option"
  and to_keys :: "jsval list \<Rightarrow> key list option" where
  "to_key (JNum n) = Some (KNum n)"
| "to_key (JInf positive) = Some (KInf positive)"
| "to_key JNegZero = Some (KNum 0)"
| "to_key (JStr s) = Some (KStr s)"
| "to_key (JArr xs ps) = (case to_keys xs of None \<Rightarrow> None | Some ks \<Rightarrow> Some (KArr ks))"
| "to_key JNull = None"
| "to_key (JBool b) = None"
| "to_key (JObj ps) = None"
| "to_keys [] = Some []"
| "to_keys (x # xs) =
     (case to_key x of None \<Rightarrow> None
      | Some k \<Rightarrow> (case to_keys xs of None \<Rightarrow> None | Some ks \<Rightarrow> Some (k # ks)))"

function key_less :: "key \<Rightarrow> key \<Rightarrow> bool"
  and keys_less :: "key list \<Rightarrow> key list \<Rightarrow> bool" where
  "key_less (KNum a) (KNum b) = (a < b)"
| "key_less (KNum a) (KInf b) = b"
| "key_less (KNum a) (KStr b) = True"
| "key_less (KNum a) (KArr b) = True"
| "key_less (KInf a) (KNum b) = (\<not> a)"
| "key_less (KInf a) (KInf b) = (\<not> a \<and> b)"
| "key_less (KInf a) (KStr b) = True"
| "key_less (KInf a) (KArr b) = True"
| "key_less (KStr a) (KNum b) = False"
| "key_less (KStr a) (KInf b) = False"
| "key_less (KStr a) (KStr b) = (a < b)"
| "key_less (KStr a) (KArr b) = True"
| "key_less (KArr a) (KNum b) = False"
| "key_less (KArr a) (KInf b) = False"
| "key_less (KArr a) (KStr b) = False"
| "key_less (KArr a) (KArr b) = keys_less a b"
| "keys_less [] [] = False"
| "keys_less [] (y # ys) = True"
| "keys_less (x # xs) [] = False"
| "keys_less (x # xs) (y # ys) = (key_less x y \<or> (\<not> key_less y x \<and> keys_less xs ys))"
  by pat_completeness auto
termination
  by (relation "measure (\<lambda>p. case p of
          Inl (a, b) \<Rightarrow> 2 * (size a + size b)
        | Inr (xs, ys) \<Rightarrow> 2 * (size_list size xs + size_list size ys) + 1)") auto

type_synonym store = "(key \<times> jsval) list"

definition entry_key :: "jsval \<Rightarrow> key option" where
  "entry_key e = (case get_prop e ''id'' of None \<Rightarrow> None | Some v \<Rightarrow> to_key v)"

fun store_put :: "key \<Rightarrow> jsval \<Rightarrow> store \<Rightarrow> store" where
  "store_put k v [] = [(k, v)]"
| "store_put k v ((k', v') # rest) =
     (if k = k' then (k, v) # rest
      else if key_less k k' then (k, v) # (k', v') # rest
      else (k', v') # store_put k v rest)"

definition store_delete :: "key \<Rightarrow> store \<Rightarrow> store" where
  "store_delete k s = filter (\<lambda>r. fst r \<noteq> k) s"

section \<open>The world: store, identifiers and clock\<close>

text \<open>
  \<^verbatim>\<open>uuid()\<close> and \<^verbatim>\<open>nowISO()\<close> read the platform: the \<open>n\<close>-th call of each returns the \<open>n\<close>-th
  value of a source that the world carries, and counts the call.
\<close>

record world =
  db :: store
  uuid_src :: "nat \<Rightarrow> string"
  uuid_used :: nat
  clock_src :: "nat \<Rightarrow> string"
  clock_used :: nat

definition nowISO :: "world \<Rightarrow> string \<times> world" where
  "nowISO w = (clock_src w (clock_used w), w\<lparr>clock_used := Suc (clock_used w)\<rparr>)"

definition uuid :: "world \<Rightarrow> string \<times> world" where
  "uuid w = (uuid_src w (uuid_used w), w\<lparr>uuid_used := Suc (uuid_used w)\<rparr>)"

subsection \<open>Lines 80 to 112: the five store operations\<close>

text \<open>\<^verbatim>\<open>store.add\<close> refuses a key that is there (ConstraintError); \<^verbatim>\<open>add\<close> and \<^verbatim>\<open>put\<close>
  refuse a record whose \<^verbatim>\<open>id\<close> is missing or no valid key, and \<^verbatim>\<open>delete\<close> and \<^verbatim>\<open>get\<close> an
  argument that is no valid key (DataError). \<^verbatim>\<open>getEntry\<close> returns \<^verbatim>\<open>req.result || null\<close>
  (line 98). A transaction that the platform aborts for reasons of its own (quota, a
  failing disk) is outside the model.\<close>

definition addEntry :: "jsval \<Rightarrow> store \<Rightarrow> error + store" where
  "addEntry entry s =
     (case entry_key entry of
        None \<Rightarrow> Inl DataError
      | Some k \<Rightarrow> (if k \<in> fst ` set s then Inl ConstraintError else Inr (store_put k entry s)))"

definition putEntry :: "jsval \<Rightarrow> store \<Rightarrow> error + store" where
  "putEntry entry s =
     (case entry_key entry of None \<Rightarrow> Inl DataError | Some k \<Rightarrow> Inr (store_put k entry s))"

definition deleteEntry :: "jsval \<Rightarrow> store \<Rightarrow> error + store" where
  "deleteEntry i s =
     (case to_key i of None \<Rightarrow> Inl DataError | Some k \<Rightarrow> Inr (store_delete k s))"

definition getEntry :: "jsval \<Rightarrow> store \<Rightarrow> error + jsval" where
  "getEntry i s =
     (case to_key i of
        None \<Rightarrow> Inl DataError
      | Some k \<Rightarrow>
          Inr (case map_of s k of None \<Rightarrow> JNull | Some e \<Rightarrow> if truthy e then e else JNull))"

definition getAllEntries :: "store \<Rightarrow> jsval list" where
  "getAllEntries s = map snd s"

subsection \<open>Lines 114 to 119: export\<close>

text \<open>
  The comparator of line 117 is \<^verbatim>\<open>(b.created_at || "").localeCompare(a.created_at || "")\<close>.
  Only a string has the method \<^verbatim>\<open>localeCompare\<close>: on any other value of \<^verbatim>\<open>b.created_at || ""\<close>
  the call raises a TypeError. The collation of the platform is the parameter \<open>lc\<close>.
  \<^verbatim>\<open>Array.prototype.sort\<close> is stable; which pairs it compares is the engine's choice. The
  model sorts by insertion, as V8 does on short arrays: it takes the elements from left to
  right and moves each one leftwards over the elements before it, calling the comparator
  with the element that it inserts as \<^verbatim>\<open>a\<close> and an earlier element as \<^verbatim>\<open>b\<close>, and stops at the
  first earlier element that the comparator does not put after it. On an array of two
  elements the comparator is called once, with the second element as \<^verbatim>\<open>a\<close> and the first
  as \<^verbatim>\<open>b\<close>.
\<close>

definition newest_first :: "(string \<Rightarrow> string \<Rightarrow> int) \<Rightarrow> jsval \<Rightarrow> jsval \<Rightarrow> error + int" where
  "newest_first lc a b =
     (case read_prop b ''created_at'' of
        Inl err \<Rightarrow> Inl err
      | Inr vb \<Rightarrow>
          (case read_prop a ''created_at'' of
             Inl err \<Rightarrow> Inl err
           | Inr va \<Rightarrow>
               (case or_empty vb of
                  JStr s \<Rightarrow>
                    (case to_string (or_empty va) of
                       Inl err \<Rightarrow> Inl err
                     | Inr t \<Rightarrow> Inr (lc s t))
                | _ \<Rightarrow> Inl TypeError)))"

text \<open>\<open>insert_sorted cmp x front\<close> inserts \<open>x\<close> into the sorted elements before it, which
  \<open>front\<close> lists from the last to the first.\<close>

fun insert_sorted :: "('a \<Rightarrow> 'a \<Rightarrow> error + int) \<Rightarrow> 'a \<Rightarrow> 'a list \<Rightarrow> error + 'a list" where
  "insert_sorted cmp x [] = Inr [x]"
| "insert_sorted cmp x (y # ys) =
     (case cmp x y of
        Inl err \<Rightarrow> Inl err
      | Inr c \<Rightarrow>
          (if c < 0
           then (case insert_sorted cmp x ys of
                   Inl err \<Rightarrow> Inl err
                 | Inr zs \<Rightarrow> Inr (y # zs))
           else Inr (x # y # ys)))"

fun sort_from :: "('a \<Rightarrow> 'a \<Rightarrow> error + int) \<Rightarrow> 'a list \<Rightarrow> 'a list \<Rightarrow> error + 'a list" where
  "sort_from cmp front [] = Inr (rev front)"
| "sort_from cmp front (x # xs) =
     (case insert_sorted cmp x front of
        Inl err \<Rightarrow> Inl err
      | Inr front' \<Rightarrow> sort_from cmp front' xs)"

definition sort_with :: "('a \<Rightarrow> 'a \<Rightarrow> error + int) \<Rightarrow> 'a list \<Rightarrow> error + 'a list" where
  "sort_with cmp xs = sort_from cmp [] xs"

definition exportJSON :: "(string \<Rightarrow> string \<Rightarrow> int) \<Rightarrow> world \<Rightarrow> (error + json_text) \<times> world" where
  "exportJSON lc w =
     (case sort_with (newest_first lc) (getAllEntries (db w)) of
        Inl err \<Rightarrow> (Inl err, w)
      | Inr entries \<Rightarrow>
          (case nowISO w of
             (t, w') \<Rightarrow>
               (Inr (JSON_stringify (JObj [(''exported_at'', JStr t), (''entries'', JArr entries [])])),
                w')))"

subsection \<open>Lines 121 to 146: import\<close>

text \<open>Lines 134 to 136: \<^verbatim>\<open>id\<close>, \<^verbatim>\<open>created_at\<close> and \<^verbatim>\<open>updated_at\<close>.\<close>

definition norm_id :: "jsval \<Rightarrow> world \<Rightarrow> jsval \<times> world" where
  "norm_id e w =
     (if truthy (or_empty (get_prop e ''id'')) then (e, w)
      else (case uuid w of (i, w') \<Rightarrow> (set_prop e ''id'' (JStr i), w')))"

definition norm_created :: "jsval \<Rightarrow> world \<Rightarrow> jsval \<times> world" where
  "norm_created e w =
     (if truthy (or_empty (get_prop e ''created_at'')) then (e, w)
      else (case nowISO w of (t, w') \<Rightarrow> (set_prop e ''created_at'' (JStr t), w')))"

definition norm_updated :: "jsval \<Rightarrow> jsval" where
  "norm_updated e =
     (if get_prop e ''updated_at'' = None then set_prop e ''updated_at'' JNull else e)"

text \<open>Lines 137 to 141, one property each:
  \<^verbatim>\<open>if (typeof e.k !== "string") e.k = String(e.k ?? "")\<close>.\<close>

definition coerce_text :: "string \<Rightarrow> jsval \<Rightarrow> error + jsval" where
  "coerce_text k e =
     (case get_prop e k of
        Some (JStr s) \<Rightarrow> Inr e
      | v \<Rightarrow>
          (case to_string (nullish_or_empty v) of
             Inl err \<Rightarrow> Inl err
           | Inr s \<Rightarrow> Inr (set_prop e k (JStr s))))"

fun coerce_all :: "string list \<Rightarrow> jsval \<Rightarrow> error + jsval" where
  "coerce_all [] e = Inr e"
| "coerce_all (k # ks) e =
     (case coerce_text k e of Inl err \<Rightarrow> Inl err | Inr e' \<Rightarrow> coerce_all ks e')"

definition text_fields :: "string list" where
  "text_fields = [''item'', ''location'', ''inventory'', ''date'', ''notes'']"

definition normalize :: "jsval \<Rightarrow> world \<Rightarrow> (error + jsval) \<times> world" where
  "normalize e w =
     (case norm_id e w of
        (e1, w1) \<Rightarrow>
          (case norm_created e1 w1 of
             (e2, w2) \<Rightarrow> (coerce_all text_fields (norm_updated e2), w2)))"

text \<open>The loop of lines 132 to 144. Each \<^verbatim>\<open>putEntry\<close> is a transaction of its own: when a
  later element raises, the records put before it stay.\<close>

fun import_loop :: "jsval list \<Rightarrow> world \<Rightarrow> error option \<times> world" where
  "import_loop [] w = (None, w)"
| "import_loop (e # es) w =
     (if \<not> is_object e then import_loop es w
      else (case normalize e w of
              (Inl err, w1) \<Rightarrow> (Some err, w1)
            | (Inr e', w1) \<Rightarrow>
                (case putEntry e' (db w1) of
                   Inl err \<Rightarrow> (Some err, w1)
                 | Inr s \<Rightarrow> import_loop es (w1\<lparr>db := s\<rparr>))))"

text \<open>Line 128: \<^verbatim>\<open>Array.isArray(parsed?.entries) ? parsed.entries : null\<close>.\<close>

definition entries_of :: "jsval \<Rightarrow> jsval list option" where
  "entries_of parsed =
     (case parsed of
        JObj ps \<Rightarrow> (case map_of ps ''entries'' of Some (JArr xs qs) \<Rightarrow> Some xs | _ \<Rightarrow> None)
      | _ \<Rightarrow> None)"

definition importJSON :: "json_text \<Rightarrow> world \<Rightarrow> (error + nat) \<times> world" where
  "importJSON jsonText w =
     (case JSON_parse jsonText of
        Inl err \<Rightarrow> (Inl InvalidJSON, w)
      | Inr parsed \<Rightarrow>
          (case entries_of parsed of
             None \<Rightarrow> (Inl MissingEntries, w)
           | Some entries \<Rightarrow>
               (case import_loop entries w of
                  (Some err, w') \<Rightarrow> (Inl err, w')
                | (None, w') \<Rightarrow> (Inr (length entries), w'))))"

subsection \<open>Lines 190 to 226 and 404 to 461: the forms\<close>

text \<open>What a handler tells the user: \<open>Done\<close> for the toasts \<^verbatim>\<open>Yeeted.\<close>, \<^verbatim>\<open>Updated\<close> and
  \<^verbatim>\<open>Deleted\<close>; \<open>ItemRequired\<close> for \<^verbatim>\<open>Item is required.\<close>, the validation error;
  \<open>NotFound\<close> for \<^verbatim>\<open>Could not load entry for update.\<close>; \<open>Failed\<close> for a store operation
  that raised; \<open>Cancelled\<close> when the user declines the confirmation.\<close>

datatype report = Done | ItemRequired | NotFound | Failed error | Cancelled

record log_form =
  fItem :: string
  fLocation :: string
  fInventory :: string
  fDate :: string
  fNotes :: string

definition logForm_submit :: "log_form \<Rightarrow> world \<Rightarrow> report \<times> world" where
  "logForm_submit f w =
     (let item = trim (fItem f); location = trim (fLocation f);
          inventory = trim (fInventory f); date = trim (fDate f); notes = trim (fNotes f)
      in if item = [] then (ItemRequired, w)
         else (case uuid w of
                 (i, w1) \<Rightarrow>
                   (case nowISO w1 of
                      (t, w2) \<Rightarrow>
                        (case addEntry
                                (JObj [(''id'', JStr i), (''created_at'', JStr t),
                                       (''updated_at'', JNull), (''item'', JStr item),
                                       (''location'', JStr location),
                                       (''inventory'', JStr inventory),
                                       (''date'', JStr date), (''notes'', JStr notes)])
                                (db w2) of
                           Inl err \<Rightarrow> (Failed err, w2)
                         | Inr s \<Rightarrow> (Done, w2\<lparr>db := s\<rparr>)))))"

record edit_form =
  eId :: string
  eItem :: string
  eLocation :: string
  eInventory :: string
  eDate :: string
  eNotes :: string

text \<open>Lines 420 to 428: the spread of the existing record, then the six properties.\<close>

definition merge_edit :: "jsval \<Rightarrow> edit_form \<Rightarrow> string \<Rightarrow> string \<Rightarrow> jsval" where
  "merge_edit existing f item t =
     JObj (AList.update ''updated_at'' (JStr t)
          (AList.update ''notes'' (JStr (trim (eNotes f)))
          (AList.update ''date'' (JStr (trim (eDate f)))
          (AList.update ''inventory'' (JStr (trim (eInventory f)))
          (AList.update ''location'' (JStr (trim (eLocation f)))
          (AList.update ''item'' (JStr item) (own_props existing)))))))"

definition saveEdit :: "edit_form \<Rightarrow> world \<Rightarrow> report \<times> world" where
  "saveEdit f w =
     (let item = trim (eItem f)
      in if item = [] then (ItemRequired, w)
         else (case getEntry (JStr (eId f)) (db w) of
                 Inl err \<Rightarrow> (Failed err, w)
               | Inr existing \<Rightarrow>
                   (if \<not> truthy existing then (NotFound, w)
                    else (case nowISO w of
                            (t, w1) \<Rightarrow>
                              (case putEntry (merge_edit existing f item t) (db w1) of
                                 Inl err \<Rightarrow> (Failed err, w1)
                               | Inr s \<Rightarrow> (Done, w1\<lparr>db := s\<rparr>))))))"

definition confirmDelete :: "string \<Rightarrow> bool \<Rightarrow> world \<Rightarrow> report \<times> world" where
  "confirmDelete i ok w =
     (if \<not> ok then (Cancelled, w)
      else (case deleteEntry (JStr i) (db w) of
              Inl err \<Rightarrow> (Failed err, w)
            | Inr s \<Rightarrow> (Done, w\<lparr>db := s\<rparr>)))"

subsection \<open>Lines 323 to 346: search\<close>

text \<open>The template literal of line 325, before \<^verbatim>\<open>toLowerCase\<close>.\<close>

definition field_text :: "jsval \<Rightarrow> string \<Rightarrow> error + string" where
  "field_text e k =
     (case read_prop e k of Inl err \<Rightarrow> Inl err | Inr v \<Rightarrow> to_string (or_empty v))"

definition haystack :: "jsval \<Rightarrow> error + string" where
  "haystack e =
     (case field_text e ''item'' of
        Inl err \<Rightarrow> Inl err
      | Inr i \<Rightarrow>
          (case field_text e ''location'' of
             Inl err \<Rightarrow> Inl err
           | Inr l \<Rightarrow>
               (case field_text e ''notes'' of
                  Inl err \<Rightarrow> Inl err
                | Inr n \<Rightarrow> Inr (i @ '' '' @ l @ '' '' @ n))))"

definition matchesQuery :: "jsval \<Rightarrow> string \<Rightarrow> error + bool" where
  "matchesQuery e q =
     (if q = [] then Inr True
      else (case haystack e of
              Inl err \<Rightarrow> Inl err
            | Inr hay \<Rightarrow> Inr (includes_str (toLowerCase hay) q)))"

text \<open>\<^verbatim>\<open>searchCache.filter((e) => matchesQuery(e, q))\<close>.\<close>

fun filter_matches :: "jsval list \<Rightarrow> string \<Rightarrow> error + jsval list" where
  "filter_matches [] q = Inr []"
| "filter_matches (e # es) q =
     (case matchesQuery e q of
        Inl err \<Rightarrow> Inl err
      | Inr m \<Rightarrow>
          (case filter_matches es q of
             Inl err \<Rightarrow> Inl err
           | Inr r \<Rightarrow> Inr (if m then e # r else r)))"

text \<open>Lines 345 and 346: the text of the search box, trimmed and lowercased, filters the
  snapshot.\<close>

definition search_filter :: "jsval list \<Rightarrow> string \<Rightarrow> error + jsval list" where
  "search_filter entries query = filter_matches entries (toLowerCase (trim query))"

definition renderSearch :: "(string \<Rightarrow> string \<Rightarrow> int) \<Rightarrow> string \<Rightarrow> world \<Rightarrow> error + jsval list" where
  "renderSearch lc query w =
     (case sort_with (newest_first lc) (getAllEntries (db w)) of
        Inl err \<Rightarrow> Inl err
      | Inr cache \<Rightarrow> search_filter cache query)"

section \<open>Notions used in the statements\<close>

text \<open>A property that holds text: it is a string, or it is not there and then reads as the
  empty string at line 325. The store only holds such values in \<^verbatim>\<open>item\<close>, \<^verbatim>\<open>location\<close> and
  \<^verbatim>\<open>notes\<close>: create and edit write trimmed strings, import coerces to strings.\<close>

definition is_text :: "jsval option \<Rightarrow> bool" where
  "is_text v = (case v of None \<Rightarrow> True | Some (JStr s) \<Rightarrow> True | Some x \<Rightarrow> False)"

definition text_of :: "jsval option \<Rightarrow> string" where
  "text_of v = (case v of Some (JStr s) \<Rightarrow> s | _ \<Rightarrow> [])"

definition searchable :: "jsval \<Rightarrow> bool" where
  "searchable e = (e \<noteq> JNull \<and> is_text (get_prop e ''item'')
      \<and> is_text (get_prop e ''location'') \<and> is_text (get_prop e ''notes''))"

definition joined_text :: "jsval \<Rightarrow> string" where
  "joined_text e = text_of (get_prop e ''item'') @ '' '' @ text_of (get_prop e ''location'')
      @ '' '' @ text_of (get_prop e ''notes'')"

text \<open>The filter in the words of the specification, section 4.5: an empty query returns
  every entry; any other query is lowercased and the entries are kept whose lowercased
  concatenation of \<^verbatim>\<open>item\<close>, \<^verbatim>\<open>location\<close> and \<^verbatim>\<open>notes\<close> contains it.\<close>

definition filter_as_claimed :: "jsval list \<Rightarrow> string \<Rightarrow> jsval list" where
  "filter_as_claimed entries query =
     (if query = [] then entries
      else filter (\<lambda>e. includes_str
             (toLowerCase (text_of (get_prop e ''item'') @ text_of (get_prop e ''location'')
                 @ text_of (get_prop e ''notes'')))
             (toLowerCase query)) entries)"

text \<open>The text that line 117 compares for an entry, \<^verbatim>\<open>e.created_at || ""\<close>, when it is
  text.\<close>

definition created_text :: "jsval \<Rightarrow> string" where
  "created_text e = (case or_empty (get_prop e ''created_at'') of JStr s \<Rightarrow> s | _ \<Rightarrow> [])"

definition has_created_text :: "jsval \<Rightarrow> bool" where
  "has_created_text e =
     (e \<noteq> JNull \<and> (case or_empty (get_prop e ''created_at'') of JStr s \<Rightarrow> True | _ \<Rightarrow> False))"

text \<open>A collation that orders strings as their code units do.\<close>

definition code_unit_compare :: "string \<Rightarrow> string \<Rightarrow> int" where
  "code_unit_compare a b = (if a < b then - 1 else if a = b then 0 else 1)"

text \<open>The names of the index properties of an array: the decimal numerals. None of the
  property names that the program assigns is one.\<close>

definition digit_chars :: "char set" where
  "digit_chars = set ''0123456789''"

definition index_name :: "string \<Rightarrow> bool" where
  "index_name k = (k \<noteq> [] \<and> set k \<subseteq> digit_chars)"

text \<open>What lines 137 to 141 store for a property: the conversion to a string of its value,
  or of the empty string when it is \<^verbatim>\<open>null\<close> or not there. \<open>convertible\<close> says that the
  conversion does not raise.\<close>

definition coerced_text :: "jsval option \<Rightarrow> string" where
  "coerced_text v = (case to_string (nullish_or_empty v) of Inr s \<Rightarrow> s | Inl err \<Rightarrow> [])"

definition convertible :: "jsval option \<Rightarrow> bool" where
  "convertible v = (case to_string (nullish_or_empty v) of Inr s \<Rightarrow> True | Inl err \<Rightarrow> False)"

text \<open>\<^verbatim>\<open>import(export())\<close>: the text that export returns is handed to import; when export
  raises there is nothing to import.\<close>

definition import_export :: "(string \<Rightarrow> string \<Rightarrow> int) \<Rightarrow> world \<Rightarrow> (error + nat) \<times> world" where
  "import_export lc w =
     (case exportJSON lc w of
        (Inl err, w1) \<Rightarrow> (Inl err, w1)
      | (Inr t, w1) \<Rightarrow> importJSON t w1)"

text \<open>A plain record: an object (not an array) all of whose values a JSON text holds as
  they are (no named property on a nested array, no infinite number, no negative zero),
  with a truthy \<^verbatim>\<open>id\<close> and \<^verbatim>\<open>created_at\<close>, an \<^verbatim>\<open>updated_at\<close> property, and strings in the five
  text properties. Create and edit build such records, and import leaves such a record
  when the element of the payload is an object without infinite numbers and negative
  zeros. A store of such records lists them in key order, each under the key of its
  \<^verbatim>\<open>id\<close>.\<close>

fun is_record :: "jsval \<Rightarrow> bool" where
  "is_record (JObj ps) = True"
| "is_record v = False"

definition is_string_prop :: "jsval \<Rightarrow> string \<Rightarrow> bool" where
  "is_string_prop e k = (case get_prop e k of Some (JStr s) \<Rightarrow> True | _ \<Rightarrow> False)"

definition normal_record :: "jsval \<Rightarrow> bool" where
  "normal_record e =
     (is_record e \<and> json_of e = e
      \<and> truthy (or_empty (get_prop e ''id''))
      \<and> truthy (or_empty (get_prop e ''created_at''))
      \<and> get_prop e ''updated_at'' \<noteq> None
      \<and> list_all (is_string_prop e) text_fields)"

definition plain_store :: "store \<Rightarrow> bool" where
  "plain_store s =
     (sorted_wrt key_less (map fst s)
      \<and> list_all (\<lambda>r. entry_key (snd r) = Some (fst r) \<and> normal_record (snd r)) s)"

text \<open>What every operation of the program leaves true of the store: each record is stored
  under the key of its own \<^verbatim>\<open>id\<close>, is an object or an array, and holds strings in its five
  text properties.\<close>

definition stored_ok :: "key \<times> jsval \<Rightarrow> bool" where
  "stored_ok r =
     (entry_key (snd r) = Some (fst r) \<and> is_object (snd r)
      \<and> list_all (is_string_prop (snd r)) text_fields)"

definition store_inv :: "store \<Rightarrow> bool" where
  "store_inv s = list_all stored_ok s"

text \<open>The platform's identifiers and clock readings are never empty: \<^verbatim>\<open>crypto.randomUUID()\<close>
  returns 36 characters, the fallback of line 77 starts with \<^verbatim>\<open>id-\<close>, and
  \<^verbatim>\<open>toISOString()\<close> returns 24 characters.\<close>

definition env_ok :: "world \<Rightarrow> bool" where
  "env_ok w = (\<forall>n. uuid_src w n \<noteq> [] \<and> clock_src w n \<noteq> [])"

fun is_array :: "jsval \<Rightarrow> bool" where
  "is_array (JArr xs ps) = True"
| "is_array v = False"

text \<open>The order of two timestamps that are text: the order of their code units, which is the
  order of time on ISO-8601 UTC timestamps.\<close>

definition ts_le :: "jsval option \<Rightarrow> jsval option \<Rightarrow> bool" where
  "ts_le a b = (case a of Some (JStr x) \<Rightarrow> (case b of Some (JStr y) \<Rightarrow> x \<le> y | _ \<Rightarrow> False)
                | _ \<Rightarrow> False)"

section \<open>Sample data\<close>

text \<open>A world with an empty store, whose identifiers are \<^verbatim>\<open>uuid-0\<close>, \<^verbatim>\<open>uuid-1\<close>, ... and whose
  clock reads \<^verbatim>\<open>2026-01-01T00:00:00.000Z\<close>, \<^verbatim>\<open>2026-01-01T00:00:01.000Z\<close>, ...\<close>

definition fresh_world :: world where
  "fresh_world =
     \<lparr>db = [], uuid_src = (\<lambda>n. ''uuid-'' @ digits n), uuid_used = 0,
      clock_src = (\<lambda>n. ''2026-01-01T00:00:0'' @ digits n @ ''.000Z''), clock_used = 0\<rparr>"

definition drill :: jsval where
  "drill =
     JObj [(''id'', JStr ''a1''), (''created_at'', JStr ''2025-03-01T10:00:00.000Z''),
           (''updated_at'', JNull), (''item'', JStr ''Drill''), (''location'', JStr ''Garage''),
           (''inventory'', JStr ''3''), (''date'', JStr []), (''notes'', JStr ''needs battery'')]"

definition wrench :: jsval where
  "wrench =
     JObj [(''id'', JStr ''b2''), (''created_at'', JStr ''2025-04-01T08:30:00.000Z''),
           (''updated_at'', JNull), (''item'', JStr ''Wrench''), (''location'', JStr ''Shed''),
           (''inventory'', JStr []), (''date'', JStr []), (''notes'', JStr [])]"

definition ladder :: jsval where
  "ladder =
     JObj [(''id'', JStr ''c3''), (''created_at'', JStr ''2024-12-24T18:00:00.000Z''),
           (''updated_at'', JNull), (''item'', JStr ''Ladder''), (''location'', JStr ''Attic''),
           (''inventory'', JStr ''1''), (''date'', JStr []), (''notes'', JStr [])]"

definition three_world :: world where
  "three_world =
     fresh_world\<lparr>db := [(KStr ''a1'', drill), (KStr ''b2'', wrench), (KStr ''c3'', ladder)]\<rparr>"

text \<open>\<^verbatim>\<open>{"entries": [{"id": "a", "created_at": 5}, {"id": "b", "created_at": 6}]}\<close>\<close>

definition numeric_payload :: jsval where
  "numeric_payload =
     JObj [(''entries'', JArr [JObj [(''id'', JStr ''a''), (''created_at'', JNum 5)],
                               JObj [(''id'', JStr ''b''), (''created_at'', JNum 6)]] [])]"

definition drill_world :: world where
  "drill_world = fresh_world\<lparr>db := [(KStr ''a1'', drill)]\<rparr>"

definition edit1 :: edit_form where
  "edit1 = \<lparr>eId = ''a1'', eItem = '' Drill bit '', eLocation = ''Garage'', eInventory = ''4'',
            eDate = [], eNotes = ''needs battery''\<rparr>"

definition edit2 :: edit_form where
  "edit2 = \<lparr>eId = ''a1'', eItem = ''Drill bits'', eLocation = ''Shed'', eInventory = ''4'',
            eDate = [], eNotes = []\<rparr>"

text \<open>\<^verbatim>\<open>{"entries": [{"id": "a1", "created_at": "2030-01-01T00:00:00.000Z", "item": "Drill"}]}\<close>\<close>

definition future_payload :: jsval where
  "future_payload =
     JObj [(''entries'', JArr [JObj [(''id'', JStr ''a1''),
                                     (''created_at'', JStr ''2030-01-01T00:00:00.000Z''),
                                     (''item'', JStr ''Drill'')]] [])]"

text \<open>\<^verbatim>\<open>{"entries": [{"item": true}]}\<close>\<close>

definition bool_payload :: jsval where
  "bool_payload = JObj [(''entries'', JArr [JObj [(''item'', JBool True)]] [])]"

text \<open>\<^verbatim>\<open>{"entries": [[]]}\<close>\<close>

definition array_payload :: jsval where
  "array_payload = JObj [(''entries'', JArr [JArr [] []] [])]"

text \<open>\<^verbatim>\<open>{"entries": [{"id": "a", "created_at": 5}, {"id": "b", "created_at": "2025-03-01T10:00:00.000Z"}]}\<close>
  and the same with the two \<^verbatim>\<open>created_at\<close> exchanged.\<close>

definition number_first_payload :: jsval where
  "number_first_payload =
     JObj [(''entries'', JArr [JObj [(''id'', JStr ''a''), (''created_at'', JNum 5)],
                               JObj [(''id'', JStr ''b''),
                                     (''created_at'', JStr ''2025-03-01T10:00:00.000Z'')]] [])]"

definition number_last_payload :: jsval where
  "number_last_payload =
     JObj [(''entries'', JArr [JObj [(''id'', JStr ''a''),
                                     (''created_at'', JStr ''2025-03-01T10:00:00.000Z'')],
                               JObj [(''id'', JStr ''b''), (''created_at'', JNum 5)]] [])]"

text \<open>\<^verbatim>\<open>{"entries": [{"id": "a", "created_at": "2025-03-01T10:00:00.000Z", "count": 1e400}]}\<close>\<close>

definition infinite_payload :: jsval where
  "infinite_payload =
     JObj [(''entries'', JArr [JObj [(''id'', JStr ''a''),
                                     (''created_at'', JStr ''2025-03-01T10:00:00.000Z''),
                                     (''count'', JInf True)]] [])]"

text \<open>The \<^verbatim>\<open>id\<close> of each entry of an exported text, in the order of the text.\<close>

definition exported_ids :: "error + json_text \<Rightarrow> jsval option list option" where
  "exported_ids r =
     (case r of
        Inr (Some doc) \<Rightarrow> map_option (map (\<lambda>e. get_prop e ''id'')) (entries_of doc)
      | _ \<Rightarrow> None)"

section \<open>Search\<close>

lemma trim_all_ws: "\<forall>c\<in>set q. is_ws c \<Longrightarrow> trim q = []"
  by (auto simp: trim_def dest: set_dropWhileD)

lemma filter_matches_empty_query: "filter_matches es [] = Inr es"
  by (induction es) (simp_all add: matchesQuery_def)

text \<open>
  C10. A search query that consists of white space only is trimmed to the empty query: for
  every list of entries the search returns what the empty query returns, which is every
  entry in the order given.
\<close>

theorem whitespace_query_returns_all:
  assumes "\<forall>c\<in>set q. is_ws c"
  shows "search_filter es q = search_filter es [] \<and> search_filter es q = Inr es"
proof -
  have "toLowerCase (trim q) = []"
    using assms by (simp add: trim_all_ws toLowerCase_def)
  moreover have "toLowerCase (trim []) = []"
    by (simp add: trim_def toLowerCase_def)
  ultimately show ?thesis
    by (simp add: search_filter_def filter_matches_empty_query)
qed

theorem whitespace_query_returns_all_witness:
  "list_all is_ws [CHR '' '', CHR 0x09, CHR 0xA0]
   \<and> search_filter [drill, JObj []] [CHR '' '', CHR 0x09, CHR 0xA0] = Inr [drill, JObj []]"
proof -
  have h: "\<forall>c\<in>set [CHR '' '', CHR 0x09, CHR 0xA0]. is_ws c"
    by (simp add: is_ws_def)
  have l: "list_all is_ws [CHR '' '', CHR 0x09, CHR 0xA0]"
    by (simp add: is_ws_def)
  from whitespace_query_returns_all [OF h, of "[drill, JObj []]"] l
  show ?thesis by blast
qed

section \<open>Create\<close>

text \<open>With an item that is not empty after trimming, and an identifier that no record has,
  the handler draws the identifier, reads the clock and adds the record.\<close>

lemma create_stores_entry:
  assumes "trim (fItem f) \<noteq> []"
    and "KStr (uuid_src w (uuid_used w)) \<notin> fst ` set (db w)"
  shows "logForm_submit f w =
     (Done,
      w\<lparr>uuid_used := Suc (uuid_used w), clock_used := Suc (clock_used w),
        db := store_put (KStr (uuid_src w (uuid_used w)))
                (JObj [(''id'', JStr (uuid_src w (uuid_used w))),
                       (''created_at'', JStr (clock_src w (clock_used w))),
                       (''updated_at'', JNull), (''item'', JStr (trim (fItem f))),
                       (''location'', JStr (trim (fLocation f))),
                       (''inventory'', JStr (trim (fInventory f))),
                       (''date'', JStr (trim (fDate f))), (''notes'', JStr (trim (fNotes f)))])
                (db w)\<rparr>)"
  using assms
  by (simp add: logForm_submit_def Let_def uuid_def nowISO_def addEntry_def entry_key_def
      get_prop_def)

text \<open>
  C5. When the item of the log form is empty after trimming, the submit handler reports
  that the item is required (the validation error) and returns before any other step: the
  world is the one it started in, so no record is added, the stored collection is unchanged,
  and neither an identifier nor a clock reading is drawn.
\<close>

theorem create_rejects_blank_item:
  assumes "trim (fItem f) = []"
  shows "logForm_submit f w = (ItemRequired, w)"
  using assms by (simp add: logForm_submit_def Let_def)

theorem create_rejects_blank_item_witness:
  "trim ''   '' = []
   \<and> logForm_submit \<lparr>fItem = ''   '', fLocation = ''Garage'', fInventory = ''3'',
                      fDate = [], fNotes = ''x''\<rparr> fresh_world = (ItemRequired, fresh_world)
   \<and> logForm_submit \<lparr>fItem = [], fLocation = ''Garage'', fInventory = ''3'',
                      fDate = [], fNotes = ''x''\<rparr> fresh_world = (ItemRequired, fresh_world)"
proof -
  have a: "trim ''   '' = []" by (simp add: trim_def is_ws_def)
  have b: "trim [] = []" by (simp add: trim_def)
  show ?thesis
    using a create_rejects_blank_item [of "\<lparr>fItem = ''   '', fLocation = ''Garage'',
              fInventory = ''3'', fDate = [], fNotes = ''x''\<rparr>" fresh_world]
      create_rejects_blank_item [of "\<lparr>fItem = [], fLocation = ''Garage'',
              fInventory = ''3'', fDate = [], fNotes = ''x''\<rparr>" fresh_world]
    by (simp add: b)
qed

section \<open>Delete\<close>

lemma store_delete_absent: "k \<notin> fst ` set s \<Longrightarrow> store_delete k s = s"
  by (induction s) (auto simp: store_delete_def)

text \<open>The program only deletes by the string of the hidden field \<^verbatim>\<open>eId\<close> (line 445), and a
  string is always a valid key: once the user has confirmed, the handler reports success.\<close>

lemma deleteEntry_string: "deleteEntry (JStr i) s = Inr (store_delete (KStr i) s)"
  by (simp add: deleteEntry_def)

lemma confirmDelete_confirmed:
  "confirmDelete i True w = (Done, w\<lparr>db := store_delete (KStr i) (db w)\<rparr>)"
  by (simp add: confirmDelete_def deleteEntry_string)

text \<open>
  C8. Deleting succeeds for every identifier that is a valid key (every string is one),
  whether a record is stored under it or not; deleting it a second time succeeds again and
  changes nothing. Afterwards no record is stored under the key, every other key holds what
  it held, and a store that had no record under the key is unchanged.
\<close>

theorem delete_is_idempotent:
  assumes "to_key i = Some k"
  shows "\<exists>s'. deleteEntry i s = Inr s' \<and> deleteEntry i s' = Inr s' \<and> map_of s' k = None
     \<and> (\<forall>k'. k' \<noteq> k \<longrightarrow> map_of s' k' = map_of s k')
     \<and> (map_of s k = None \<longrightarrow> s' = s)"
proof -
  have idem: "store_delete k (store_delete k s) = store_delete k s"
    by (simp add: store_delete_def)
  have gone: "map_of (store_delete k s) k = None"
    by (induction s) (auto simp: store_delete_def)
  have frame: "\<And>k'. k' \<noteq> k \<Longrightarrow> map_of (store_delete k s) k' = map_of s k'"
    by (induction s) (auto simp: store_delete_def)
  have absent: "map_of s k = None \<Longrightarrow> store_delete k s = s"
    by (rule store_delete_absent) (simp add: map_of_eq_None_iff)
  show ?thesis
    using assms idem gone frame absent by (simp add: deleteEntry_def)
qed

theorem delete_is_idempotent_witness:
  "to_key (JStr ''a1'') = Some (KStr ''a1'')
   \<and> deleteEntry (JStr ''a1'') [(KStr ''a1'', drill)] = Inr []
   \<and> deleteEntry (JStr ''a1'') [] = Inr []
   \<and> deleteEntry (JStr ''zz'') [(KStr ''a1'', drill)] = Inr [(KStr ''a1'', drill)]"
proof -
  have k: "to_key (JStr ''a1'') = Some (KStr ''a1'')" by simp
  from delete_is_idempotent [OF k, of "[(KStr ''a1'', drill)]"]
  obtain s' where s': "deleteEntry (JStr ''a1'') [(KStr ''a1'', drill)] = Inr s'"
      "deleteEntry (JStr ''a1'') s' = Inr s'"
    by blast
  have "s' = []" using s'(1) by (simp add: deleteEntry_def store_delete_def)
  with s' k show ?thesis by (simp add: deleteEntry_def store_delete_def)
qed

section \<open>Import: the count\<close>

text \<open>Whenever import succeeds its result is the length of the \<^verbatim>\<open>entries\<close> array, and
  elements that do not pass line 133 change nothing.\<close>

lemma importJSON_returns_length:
  assumes "importJSON t w = (Inr n, w')"
  shows "\<exists>parsed es. JSON_parse t = Inr parsed \<and> entries_of parsed = Some es \<and> n = length es"
proof (cases "JSON_parse t")
  case (Inl err)
  then show ?thesis using assms by (simp add: importJSON_def)
next
  case (Inr parsed)
  show ?thesis
  proof (cases "entries_of parsed")
    case None
    then show ?thesis using assms Inr by (simp add: importJSON_def)
  next
    case (Some es)
    obtain r w1 where l: "import_loop es w = (r, w1)" by (cases "import_loop es w")
    then have "n = length es"
      using assms Inr Some by (cases r) (simp_all add: importJSON_def)
    then show ?thesis using Inr Some by simp
  qed
qed

lemma import_loop_skips:
  "\<forall>e\<in>set es. \<not> is_object e \<Longrightarrow> import_loop es w = (None, w)"
  by (induction es) simp_all

text \<open>
  C1. The value that import returns is the length of the \<^verbatim>\<open>entries\<close> array (line 145), the
  elements skipped at line 133 included. On \<^verbatim>\<open>{"entries": [null, 7, "x"]}\<close> every element is
  skipped, nothing is stored, and import returns 3. The caller shows the number as
  \<^verbatim>\<open>Imported 3 item(s)\<close> (line 510).
\<close>

theorem import_counts_skipped_elements:
  "importJSON (Some (JObj [(''entries'', JArr [JNull, JNum 7, JStr ''x''] [])])) w = (Inr 3, w)"
proof -
  have "import_loop [JNull, JNum 7, JStr ''x''] w = (None, w)"
    by simp
  then show ?thesis
    by (simp add: importJSON_def JSON_parse_def entries_of_def)
qed

section \<open>Search: matching\<close>

lemmas search_eval =
  search_filter_def matchesQuery_def haystack_def field_text_def read_prop_def get_prop_def
  or_empty_def trim_def is_ws_def toLowerCase_def lower_char_def char_of_def bit_0

lemma includes_str_sublist: "includes_str h q = sublist q h"
  by (induction h) (simp_all add: sublist_Cons_right)

lemma or_empty_text: "is_text v \<Longrightarrow> to_string (or_empty v) = Inr (text_of v)"
  by (auto simp: is_text_def text_of_def or_empty_def split: option.splits jsval.splits)

lemma field_text_text:
  "e \<noteq> JNull \<Longrightarrow> is_text (get_prop e k) \<Longrightarrow> field_text e k = Inr (text_of (get_prop e k))"
  by (simp add: field_text_def read_prop_def or_empty_text)

lemma haystack_searchable: "searchable e \<Longrightarrow> haystack e = Inr (joined_text e)"
  by (simp add: searchable_def haystack_def field_text_text joined_text_def)

lemma matchesQuery_searchable:
  "searchable e \<Longrightarrow> matchesQuery e q = Inr (q = [] \<or> sublist q (toLowerCase (joined_text e)))"
  by (simp add: matchesQuery_def haystack_searchable includes_str_sublist)

lemma filter_matches_searchable:
  "\<forall>e\<in>set es. searchable e \<Longrightarrow>
   filter_matches es q = Inr (filter (\<lambda>e. q = [] \<or> sublist q (toLowerCase (joined_text e))) es)"
  by (induction es) (simp_all add: matchesQuery_searchable)

lemma searchable_drill: "searchable drill"
  by (simp add: searchable_def drill_def get_prop_def is_text_def)

text \<open>
  C4, as the code has it. The text of the search box is trimmed and lowercased. For every
  list of entries whose \<^verbatim>\<open>item\<close>, \<^verbatim>\<open>location\<close> and \<^verbatim>\<open>notes\<close> hold text, the search returns
  every entry when the trimmed query is empty, and otherwise exactly the entries, in the
  order given, whose lowercased \<^verbatim>\<open>item\<close>, \<^verbatim>\<open>location\<close> and \<^verbatim>\<open>notes\<close>, joined by single spaces,
  contain the trimmed lowercased query as a substring. \<^verbatim>\<open>inventory\<close> and \<^verbatim>\<open>date\<close> take no
  part.
\<close>

theorem search_filter_characterisation:
  assumes "\<forall>e\<in>set es. searchable e"
  shows "search_filter es query =
     Inr (filter (\<lambda>e. toLowerCase (trim query) = []
                    \<or> sublist (toLowerCase (trim query)) (toLowerCase (joined_text e))) es)"
proof -
  have "search_filter es query = filter_matches es (toLowerCase (trim query))"
    by (simp add: search_filter_def)
  also have "\<dots> = Inr (filter (\<lambda>e. toLowerCase (trim query) = []
                    \<or> sublist (toLowerCase (trim query)) (toLowerCase (joined_text e))) es)"
    using assms by (rule filter_matches_searchable)
  finally show ?thesis .
qed

text \<open>The entry \<open>drill\<close> has the inventory \<^verbatim>\<open>3\<close> and no \<^verbatim>\<open>3\<close> elsewhere: the query \<^verbatim>\<open>3\<close> does
  not find it, the query \<^verbatim>\<open>  GARAGE \<close> does.\<close>

theorem search_filter_characterisation_witness:
  "list_all searchable [drill, JObj []]
   \<and> search_filter [drill, JObj []] ''3'' = Inr []
   \<and> search_filter [drill, JObj []] ''  GARAGE '' = Inr [drill]
   \<and> search_filter [drill, JObj []] [] = Inr [drill, JObj []]"
proof -
  have s: "\<forall>e\<in>set [drill, JObj []]. searchable e"
    by (simp add: searchable_drill) (simp add: searchable_def get_prop_def is_text_def)
  have l: "list_all searchable [drill, JObj []]"
    using s by (simp add: list_all_iff)
  have j: "joined_text drill = ''Drill Garage needs battery''" "joined_text (JObj []) = ''  ''"
    by (simp_all add: joined_text_def drill_def get_prop_def text_of_def)
  have q: "toLowerCase (trim ''3'') = ''3''" "toLowerCase (trim ''  GARAGE '') = ''garage''"
    "toLowerCase (trim []) = []"
    by (simp_all add: search_eval)
  have h: "toLowerCase ''Drill Garage needs battery'' = ''drill garage needs battery''"
    "toLowerCase ''  '' = ''  ''"
    by (simp_all add: search_eval)
  show ?thesis
    using l search_filter_characterisation [OF s, of "''3''"]
      search_filter_characterisation [OF s, of "''  GARAGE ''"]
      search_filter_characterisation [OF s, of "[]"]
    by (simp add: j q h flip: includes_str_sublist)
qed

text \<open>
  C4, as the claim has it, fails twice. The query \<^verbatim>\<open> drill\<close>, with a space in front, is not
  contained in the text of \<open>drill\<close>, yet the search trims it and finds the entry. The query
  \<^verbatim>\<open>lg\<close> is contained in the concatenation \<^verbatim>\<open>drillgarageneeds battery\<close>, yet the search joins
  the fields with spaces and does not find the entry.
\<close>

theorem search_is_not_the_claimed_filter:
  "search_filter [drill] '' drill'' = Inr [drill] \<and> filter_as_claimed [drill] '' drill'' = []
   \<and> search_filter [drill] ''lg'' = Inr [] \<and> filter_as_claimed [drill] ''lg'' = [drill]"
proof -
  have "search_filter [drill] '' drill'' = Inr [drill]" "search_filter [drill] ''lg'' = Inr []"
    by (simp_all add: search_eval drill_def)
  moreover
  have "filter_as_claimed [drill] '' drill'' = []" "filter_as_claimed [drill] ''lg'' = [drill]"
    by (simp_all add: filter_as_claimed_def get_prop_def drill_def text_of_def
        toLowerCase_def lower_char_def char_of_def bit_0)
  ultimately show ?thesis by simp
qed

text \<open>
  C9. The text searched is \<^verbatim>\<open>item\<close>, \<^verbatim>\<open>location\<close> and \<^verbatim>\<open>notes\<close> joined by single spaces, a
  property that is not there giving the empty string; the query matches when it is a
  substring of that text lowercased. So a query with a space can match across two fields.
\<close>

theorem haystack_joins_with_spaces:
  assumes "searchable e"
  shows "haystack e = Inr (text_of (get_prop e ''item'') @ '' ''
                           @ text_of (get_prop e ''location'') @ '' ''
                           @ text_of (get_prop e ''notes''))
     \<and> matchesQuery e q =
         Inr (q = [] \<or> sublist q (toLowerCase (text_of (get_prop e ''item'') @ '' ''
                           @ text_of (get_prop e ''location'') @ '' ''
                           @ text_of (get_prop e ''notes''))))"
  using assms haystack_searchable [of e] matchesQuery_searchable [of e q]
  by (simp add: joined_text_def)

text \<open>An entry with the item \<^verbatim>\<open>Drill\<close> and the location \<^verbatim>\<open>Garage\<close>, and no notes: the query
  \<^verbatim>\<open>drill garage\<close> matches it, and neither field contains the query.\<close>

theorem haystack_joins_with_spaces_witness:
  "searchable (JObj [(''item'', JStr ''Drill''), (''location'', JStr ''Garage'')])
   \<and> haystack (JObj [(''item'', JStr ''Drill''), (''location'', JStr ''Garage'')])
       = Inr ''Drill Garage ''
   \<and> matchesQuery (JObj [(''item'', JStr ''Drill''), (''location'', JStr ''Garage'')])
       ''drill garage'' = Inr True
   \<and> \<not> sublist ''drill garage'' (toLowerCase ''Drill'')
   \<and> \<not> sublist ''drill garage'' (toLowerCase ''Garage'')"
proof -
  let ?e = "JObj [(''item'', JStr ''Drill''), (''location'', JStr ''Garage'')]"
  have s: "searchable ?e"
    by (simp add: searchable_def get_prop_def is_text_def)
  have h: "toLowerCase ''Drill Garage '' = ''drill garage ''" "toLowerCase ''Drill'' = ''drill''"
    "toLowerCase ''Garage'' = ''garage''"
    by (simp_all add: search_eval)
  show ?thesis
    using s haystack_joins_with_spaces [OF s, of "''drill garage''"]
    by (simp add: get_prop_def text_of_def h flip: includes_str_sublist)
qed

section \<open>Export\<close>

lemma newest_first_text:
  "has_created_text a \<Longrightarrow> has_created_text b \<Longrightarrow>
   newest_first lc a b = Inr (lc (created_text b) (created_text a))"
  by (auto simp: has_created_text_def created_text_def newest_first_def read_prop_def
      split: jsval.splits)

lemma insert_sorted_asc:
  fixes key :: "'a \<Rightarrow> 'b::linorder"
  assumes "\<forall>y\<in>set ys. \<exists>c. cmp x y = Inr c \<and> (c < 0) = (key y < key x)"
    and "sorted_wrt (\<lambda>a b. key a \<le> key b) ys"
  shows "\<exists>zs. insert_sorted cmp x ys = Inr zs \<and> mset zs = mset (x # ys)
     \<and> sorted_wrt (\<lambda>a b. key a \<le> key b) zs"
  using assms
proof (induction ys)
  case Nil
  then show ?case by simp
next
  case (Cons y ys)
  from Cons.prems(1) obtain c where c: "cmp x y = Inr c" "(c < 0) = (key y < key x)"
    by auto
  show ?case
  proof (cases "c < 0")
    case False
    then have "key x \<le> key y" using c by auto
    moreover have "\<forall>z\<in>set ys. key y \<le> key z" using Cons.prems(2) by simp
    ultimately show ?thesis using c False Cons.prems(2) by auto
  next
    case True
    then have lt: "key y < key x" using c by simp
    from Cons.IH Cons.prems obtain zs where zs: "insert_sorted cmp x ys = Inr zs"
      "mset zs = mset (x # ys)" "sorted_wrt (\<lambda>a b. key a \<le> key b) zs"
      by auto
    have "\<forall>z\<in>set zs. key y \<le> key z"
    proof
      fix z assume "z \<in> set zs"
      then have "z \<in># mset (x # ys)" using zs(2) by (metis set_mset_mset)
      then have "z = x \<or> z \<in> set ys" by auto
      then show "key y \<le> key z" using lt Cons.prems(2) by auto
    qed
    then show ?thesis using c True zs by auto
  qed
qed

lemma sort_from_desc:
  fixes key :: "'a \<Rightarrow> 'b::linorder"
  assumes "\<forall>x\<in>set front \<union> set xs. \<forall>y\<in>set front \<union> set xs.
      \<exists>c. cmp x y = Inr c \<and> (c < 0) = (key y < key x)"
    and "sorted_wrt (\<lambda>a b. key a \<le> key b) front"
  shows "\<exists>ys. sort_from cmp front xs = Inr ys \<and> mset ys = mset front + mset xs
     \<and> sorted_wrt (\<lambda>a b. key b \<le> key a) ys"
  using assms
proof (induction xs arbitrary: front)
  case Nil
  then show ?case by (simp add: sorted_wrt_rev)
next
  case (Cons x xs)
  have "\<forall>y\<in>set front. \<exists>c. cmp x y = Inr c \<and> (c < 0) = (key y < key x)"
    using Cons.prems(1) by simp
  from insert_sorted_asc [where cmp = cmp and key = key and x = x and ys = front,
      OF this Cons.prems(2)]
  obtain zs where zs: "insert_sorted cmp x front = Inr zs" "mset zs = mset (x # front)"
    "sorted_wrt (\<lambda>a b. key a \<le> key b) zs"
    by blast
  have "set zs = insert x (set front)" using zs(2) by (metis set_mset_mset list.simps(15))
  then have "\<forall>a\<in>set zs \<union> set xs. \<forall>b\<in>set zs \<union> set xs.
      \<exists>c. cmp a b = Inr c \<and> (c < 0) = (key b < key a)"
    using Cons.prems(1) by simp
  from Cons.IH [OF this zs(3)] zs(1,2) show ?case by auto
qed

lemma sort_with_desc:
  fixes key :: "'a \<Rightarrow> 'b::linorder"
  assumes "\<forall>x\<in>set xs. \<forall>y\<in>set xs. \<exists>c. cmp x y = Inr c \<and> (c < 0) = (key y < key x)"
  shows "\<exists>ys. sort_with cmp xs = Inr ys \<and> mset ys = mset xs
     \<and> sorted_wrt (\<lambda>a b. key b \<le> key a) ys"
  using sort_from_desc [where cmp = cmp and key = key and front = "[]" and xs = xs] assms
  by (simp add: sort_with_def)

lemma sorted_desc_strict:
  fixes key :: "'a \<Rightarrow> 'b::linorder"
  shows "sorted_wrt (\<lambda>a b. key b \<le> key a) ys \<Longrightarrow> distinct (map key ys) \<Longrightarrow>
    sorted_wrt (\<lambda>a b. key b < key a) ys"
  by (induction ys) (auto simp: less_le image_iff)

lemma code_unit_compare_less: "(code_unit_compare a b < 0) = (a < b)"
  by (auto simp: code_unit_compare_def)

lemmas world_eval = fresh_world_def three_world_def drill_def wrench_def ladder_def

text \<open>
  Where every \<^verbatim>\<open>created_at\<close> is text, export sorts. Take a stored collection in which every
  \<^verbatim>\<open>created_at\<close> is text (or is not there, and then counts as the empty text), and a
  collation that puts one of these texts before another exactly when the code units do,
  which is the order of time on ISO-8601 UTC timestamps. Then export succeeds, reads the
  clock once, and lists every stored entry exactly once, in descending order of
  \<^verbatim>\<open>created_at\<close>; when the \<^verbatim>\<open>created_at\<close> values are pairwise distinct, as for three entries
  made at three different times, the order is strictly descending.
\<close>

lemma export_sorts_text_collections:
  assumes texts: "\<forall>e\<in>set (getAllEntries (db w)). has_created_text e"
    and coll: "\<forall>a\<in>set (getAllEntries (db w)). \<forall>b\<in>set (getAllEntries (db w)).
        (lc (created_text a) (created_text b) < 0) = (created_text a < created_text b)"
  shows "\<exists>es. exportJSON lc w =
        (Inr (Some (JObj [(''exported_at'', JStr (clock_src w (clock_used w))),
                          (''entries'', JArr (map json_of es) [])])),
         w\<lparr>clock_used := Suc (clock_used w)\<rparr>)
     \<and> mset es = mset (getAllEntries (db w))
     \<and> sorted_wrt (\<lambda>a b. created_text b \<le> created_text a) es
     \<and> (distinct (map created_text (getAllEntries (db w)))
          \<longrightarrow> sorted_wrt (\<lambda>a b. created_text b < created_text a) es)"
proof -
  let ?xs = "getAllEntries (db w)"
  have "\<forall>x\<in>set ?xs. \<forall>y\<in>set ?xs. \<exists>c. newest_first lc x y = Inr c
          \<and> (c < 0) = (created_text y < created_text x)"
    using texts coll by (simp add: newest_first_text)
  from sort_with_desc [where cmp = "newest_first lc" and key = created_text, OF this]
  obtain es where es: "sort_with (newest_first lc) ?xs = Inr es" "mset es = mset ?xs"
    "sorted_wrt (\<lambda>a b. created_text b \<le> created_text a) es"
    by blast
  have "distinct (map created_text ?xs) \<Longrightarrow> distinct (map created_text es)"
    using es(2) by (metis mset_map mset_eq_imp_distinct_iff)
  then have strict: "distinct (map created_text ?xs) \<longrightarrow>
      sorted_wrt (\<lambda>a b. created_text b < created_text a) es"
    using es(3) by (simp add: sorted_desc_strict)
  have "exportJSON lc w =
        (Inr (Some (JObj [(''exported_at'', JStr (clock_src w (clock_used w))),
                          (''entries'', JArr (map json_of es) [])])),
         w\<lparr>clock_used := Suc (clock_used w)\<rparr>)"
    using es(1) by (simp add: exportJSON_def nowISO_def JSON_stringify_def)
  with es(2,3) strict show ?thesis by blast
qed

text \<open>Three entries stored in the order \<open>drill\<close> (March 2025), \<open>wrench\<close> (April 2025),
  \<open>ladder\<close> (December 2024) are exported as \<open>wrench\<close>, \<open>drill\<close>, \<open>ladder\<close>.\<close>

lemma export_three_entries:
  "list_all has_created_text (getAllEntries (db three_world))
   \<and> distinct (map created_text (getAllEntries (db three_world)))
   \<and> exportJSON code_unit_compare three_world =
        (Inr (Some (JObj [(''exported_at'', JStr ''2026-01-01T00:00:00.000Z''),
                          (''entries'', JArr [wrench, drill, ladder] [])])),
         three_world\<lparr>clock_used := 1\<rparr>)
   \<and> created_text ladder < created_text drill \<and> created_text drill < created_text wrench"
proof -
  have t: "\<forall>e\<in>set (getAllEntries (db three_world)). has_created_text e"
    by (simp add: world_eval getAllEntries_def has_created_text_def or_empty_def get_prop_def)
  have c: "\<forall>a\<in>set (getAllEntries (db three_world)). \<forall>b\<in>set (getAllEntries (db three_world)).
        (code_unit_compare (created_text a) (created_text b) < 0)
          = (created_text a < created_text b)"
    by (simp add: code_unit_compare_less)
  have e: "exportJSON code_unit_compare three_world =
        (Inr (Some (JObj [(''exported_at'', JStr ''2026-01-01T00:00:00.000Z''),
                          (''entries'', JArr [wrench, drill, ladder] [])])),
         three_world\<lparr>clock_used := 1\<rparr>)"
    by (simp add: exportJSON_def sort_with_def world_eval getAllEntries_def newest_first_def read_prop_def
        get_prop_def or_empty_def code_unit_compare_def nowISO_def JSON_stringify_def
        digits.simps digit_char_def)
  have d: "created_text drill = ''2025-03-01T10:00:00.000Z''"
    "created_text wrench = ''2025-04-01T08:30:00.000Z''"
    "created_text ladder = ''2024-12-24T18:00:00.000Z''"
    by (simp_all add: created_text_def world_eval or_empty_def get_prop_def)
  have g: "getAllEntries (db three_world) = [drill, wrench, ladder]"
    by (simp add: three_world_def getAllEntries_def)
  show ?thesis
    using export_sorts_text_collections [OF t c] t e
    by (simp add: g d list_all_iff)
qed

text \<open>
  C7. Export fetches all entries and lists each exactly once, newest first by
  \<^verbatim>\<open>created_at\<close>. The code means to: the comment of line 116 says \<^verbatim>\<open>Sort newest first\<close>, and the
  comparator guards a \<^verbatim>\<open>created_at\<close> that is missing with \<^verbatim>\<open>|| ""\<close>. It misses a \<^verbatim>\<open>created_at\<close>
  that is there and is not text, which import stores: line 135 keeps any truthy
  \<^verbatim>\<open>created_at\<close>, where lines 137 to 141 convert the sibling properties to strings. The import
  of \<^verbatim>\<open>{"entries": [{"id": "a", "created_at": 5}, {"id": "b", "created_at": 6}]}\<close> into the
  empty store succeeds and reports two records; the export of that store calls
  \<^verbatim>\<open>localeCompare\<close> on a number, raises a TypeError and lists nothing, whichever of the two
  records the engine passes as \<^verbatim>\<open>b\<close>.
\<close>

theorem export_raises_on_numeric_created_at:
  "fst (importJSON (Some numeric_payload) fresh_world) = Inr 2
   \<and> fst (exportJSON code_unit_compare (snd (importJSON (Some numeric_payload) fresh_world)))
       = Inl TypeError"
  by code_simp

text \<open>
  When one of two records has a number as \<^verbatim>\<open>created_at\<close> and the other a text, the outcome
  depends on which record the engine passes as \<^verbatim>\<open>b\<close>. With the call that the model makes, the
  second record as \<^verbatim>\<open>a\<close> and the first as \<^verbatim>\<open>b\<close>, export raises when the first record holds
  the number, and compares the text with the numeral \<^verbatim>\<open>5\<close> when the second does.
\<close>

lemma export_with_one_numeric_created_at:
  "fst (exportJSON code_unit_compare (snd (importJSON (Some number_first_payload) fresh_world)))
     = Inl TypeError
   \<and> exported_ids (fst (exportJSON code_unit_compare
         (snd (importJSON (Some number_last_payload) fresh_world))))
     = Some [Some (JStr ''b''), Some (JStr ''a'')]"
  by code_simp

section \<open>Update\<close>

lemma map_of_store_put_same: "map_of (store_put k v s) k = Some v"
  by (induction s) auto

lemma map_of_store_put_other: "k' \<noteq> k \<Longrightarrow> map_of (store_put k v s) k' = map_of s k'"
  by (induction s) auto

lemma get_prop_merge_edit:
  "get_prop (merge_edit e f item t) k =
     (if k = ''updated_at'' then Some (JStr t)
      else if k = ''notes'' then Some (JStr (trim (eNotes f)))
      else if k = ''date'' then Some (JStr (trim (eDate f)))
      else if k = ''inventory'' then Some (JStr (trim (eInventory f)))
      else if k = ''location'' then Some (JStr (trim (eLocation f)))
      else if k = ''item'' then Some (JStr item)
      else get_prop e k)"
  by (simp add: merge_edit_def get_prop_def update_conv')

lemma entry_key_merge_edit: "entry_key (merge_edit e f item t) = entry_key e"
  by (simp add: entry_key_def get_prop_merge_edit)

text \<open>One update of a record that is stored under its own \<^verbatim>\<open>id\<close>: it succeeds, reads the
  clock once and puts the merged record under the same key.\<close>

lemma saveEdit_existing:
  assumes item: "trim (eItem f) \<noteq> []"
    and stored: "map_of (db w) (KStr (eId f)) = Some e"
    and obj: "is_object e"
    and key: "entry_key e = Some (KStr (eId f))"
  shows "saveEdit f w =
     (Done, w\<lparr>clock_used := Suc (clock_used w),
              db := store_put (KStr (eId f))
                      (merge_edit e f (trim (eItem f)) (clock_src w (clock_used w))) (db w)\<rparr>)"
proof -
  have "truthy e" using obj by (cases e) simp_all
  then show ?thesis
    using item stored key
    by (simp add: saveEdit_def Let_def getEntry_def nowISO_def putEntry_def entry_key_merge_edit)
qed

text \<open>
  C6, as the code has it. Take a record stored under its \<^verbatim>\<open>id\<close> and two updates of it, one
  after the other, each with an item that is not empty after trimming. Both succeed. After
  each the record stored under the key has the \<^verbatim>\<open>id\<close> and the \<^verbatim>\<open>created_at\<close> it had at the
  start, and its \<^verbatim>\<open>updated_at\<close> is the reading of the clock at that update; no other key of
  the store changes. The second \<^verbatim>\<open>updated_at\<close> is not before the first when the clock did not
  run backwards between the two readings, and an \<^verbatim>\<open>updated_at\<close> is not before \<^verbatim>\<open>created_at\<close>
  when \<^verbatim>\<open>created_at\<close> is a text not later than the reading of the clock at that update.
\<close>

theorem update_keeps_id_and_created_at:
  assumes item: "trim (eItem f1) \<noteq> []" "trim (eItem f2) \<noteq> []"
    and same: "eId f2 = eId f1"
    and stored: "map_of (db w) (KStr (eId f1)) = Some e"
    and obj: "is_object e"
    and key: "entry_key e = Some (KStr (eId f1))"
  shows "\<exists>w1 w2 e1 e2.
       saveEdit f1 w = (Done, w1) \<and> saveEdit f2 w1 = (Done, w2)
     \<and> map_of (db w1) (KStr (eId f1)) = Some e1 \<and> map_of (db w2) (KStr (eId f1)) = Some e2
     \<and> get_prop e1 ''id'' = get_prop e ''id'' \<and> get_prop e2 ''id'' = get_prop e ''id''
     \<and> get_prop e1 ''created_at'' = get_prop e ''created_at''
     \<and> get_prop e2 ''created_at'' = get_prop e ''created_at''
     \<and> get_prop e1 ''updated_at'' = Some (JStr (clock_src w (clock_used w)))
     \<and> get_prop e2 ''updated_at'' = Some (JStr (clock_src w (Suc (clock_used w))))
     \<and> (clock_src w (clock_used w) \<le> clock_src w (Suc (clock_used w))
          \<longrightarrow> ts_le (get_prop e1 ''updated_at'') (get_prop e2 ''updated_at''))
     \<and> (ts_le (get_prop e ''created_at'') (Some (JStr (clock_src w (clock_used w))))
          \<longrightarrow> ts_le (get_prop e1 ''created_at'') (get_prop e1 ''updated_at''))
     \<and> (ts_le (get_prop e ''created_at'') (Some (JStr (clock_src w (Suc (clock_used w)))))
          \<longrightarrow> ts_le (get_prop e2 ''created_at'') (get_prop e2 ''updated_at''))
     \<and> (\<forall>k. k \<noteq> KStr (eId f1) \<longrightarrow> map_of (db w2) k = map_of (db w) k)"
proof -
  let ?k = "KStr (eId f1)"
  let ?u1 = "clock_src w (clock_used w)"
  let ?u2 = "clock_src w (Suc (clock_used w))"
  let ?e1 = "merge_edit e f1 (trim (eItem f1)) ?u1"
  let ?w1 = "w\<lparr>clock_used := Suc (clock_used w), db := store_put ?k ?e1 (db w)\<rparr>"
  let ?e2 = "merge_edit ?e1 f2 (trim (eItem f2)) ?u2"
  let ?w2 = "?w1\<lparr>clock_used := Suc (clock_used ?w1), db := store_put ?k ?e2 (db ?w1)\<rparr>"
  have first: "saveEdit f1 w = (Done, ?w1)"
    using item(1) stored obj key by (rule saveEdit_existing)
  have stored1: "map_of (db ?w1) (KStr (eId f2)) = Some ?e1"
    by (simp add: same map_of_store_put_same)
  have obj1: "is_object ?e1" by (simp add: merge_edit_def)
  have key1: "entry_key ?e1 = Some (KStr (eId f2))"
    by (simp add: entry_key_merge_edit key same)
  have second: "saveEdit f2 ?w1 = (Done, ?w2)"
    using saveEdit_existing [OF item(2) stored1 obj1 key1] by (simp add: same)
  have stored1': "map_of (db ?w1) ?k = Some ?e1"
    by (simp add: map_of_store_put_same)
  have stored2: "map_of (db ?w2) ?k = Some ?e2"
    by (simp add: map_of_store_put_same)
  have frame: "\<forall>k. k \<noteq> ?k \<longrightarrow> map_of (db ?w2) k = map_of (db w) k"
    by (simp add: map_of_store_put_other)
  have props: "get_prop ?e1 ''id'' = get_prop e ''id''" "get_prop ?e2 ''id'' = get_prop e ''id''"
    "get_prop ?e1 ''created_at'' = get_prop e ''created_at''"
    "get_prop ?e2 ''created_at'' = get_prop e ''created_at''"
    "get_prop ?e1 ''updated_at'' = Some (JStr ?u1)" "get_prop ?e2 ''updated_at'' = Some (JStr ?u2)"
    by (simp_all add: get_prop_merge_edit)
  have ord: "?u1 \<le> ?u2 \<longrightarrow> ts_le (get_prop ?e1 ''updated_at'') (get_prop ?e2 ''updated_at'')"
    "ts_le (get_prop e ''created_at'') (Some (JStr ?u1))
       \<longrightarrow> ts_le (get_prop ?e1 ''created_at'') (get_prop ?e1 ''updated_at'')"
    "ts_le (get_prop e ''created_at'') (Some (JStr ?u2))
       \<longrightarrow> ts_le (get_prop ?e2 ''created_at'') (get_prop ?e2 ''updated_at'')"
    by (simp_all add: props ts_le_def)
  show ?thesis
    apply (rule exI [of _ ?w1], rule exI [of _ ?w2], rule exI [of _ ?e1], rule exI [of _ ?e2])
    apply (intro conjI)
    apply (fact first second stored1' stored2 frame props ord)+
    done
qed

text \<open>The entry \<open>drill\<close>, made in March 2025, edited twice in January 2026.\<close>

theorem update_keeps_id_and_created_at_witness:
  "trim (eItem edit1) \<noteq> [] \<and> trim (eItem edit2) \<noteq> [] \<and> eId edit2 = eId edit1
   \<and> map_of (db drill_world) (KStr (eId edit1)) = Some drill
   \<and> fst (saveEdit edit1 drill_world) = Done
   \<and> fst (saveEdit edit2 (snd (saveEdit edit1 drill_world))) = Done
   \<and> (\<exists>e2. map_of (db (snd (saveEdit edit2 (snd (saveEdit edit1 drill_world))))) (KStr ''a1'')
             = Some e2
          \<and> get_prop e2 ''id'' = Some (JStr ''a1'')
          \<and> get_prop e2 ''created_at'' = Some (JStr ''2025-03-01T10:00:00.000Z'')
          \<and> get_prop e2 ''updated_at'' = Some (JStr ''2026-01-01T00:00:01.000Z'')
          \<and> ts_le (get_prop e2 ''created_at'') (get_prop e2 ''updated_at''))"
proof -
  have i: "trim (eItem edit1) \<noteq> []" "trim (eItem edit2) \<noteq> []"
    by (simp_all add: edit1_def edit2_def trim_def is_ws_def)
  have s: "eId edit2 = eId edit1" by (simp add: edit1_def edit2_def)
  have st: "map_of (db drill_world) (KStr (eId edit1)) = Some drill"
    by (simp add: drill_world_def edit1_def)
  have o: "is_object drill" by (simp add: drill_def)
  have k: "entry_key drill = Some (KStr (eId edit1))"
    by (simp add: drill_def entry_key_def get_prop_def edit1_def)
  have c: "get_prop drill ''created_at'' = Some (JStr ''2025-03-01T10:00:00.000Z'')"
    by (simp add: drill_def get_prop_def)
  have t: "clock_src drill_world (clock_used drill_world) = ''2026-01-01T00:00:00.000Z''"
    "clock_src drill_world (Suc (clock_used drill_world)) = ''2026-01-01T00:00:01.000Z''"
    by (simp_all add: drill_world_def fresh_world_def digits.simps digit_char_def)
  have id: "get_prop drill ''id'' = Some (JStr ''a1'')"
    by (simp add: drill_def get_prop_def)
  from update_keeps_id_and_created_at [OF i s st o k]
  show ?thesis using i s st by (auto simp: t id c edit1_def ts_le_def)
qed

text \<open>
  C6, as the claim has it, fails for a record whose \<^verbatim>\<open>created_at\<close> lies ahead of the clock.
  Import keeps the \<^verbatim>\<open>created_at\<close> of the payload (line 135), here the year 2030; an update in
  2026 then stores an \<^verbatim>\<open>updated_at\<close> that is before the \<^verbatim>\<open>created_at\<close> of the record.
\<close>

theorem update_can_precede_created_at:
  "fst (saveEdit edit1 (snd (importJSON (Some future_payload) fresh_world))) = Done
   \<and> map_option
        (\<lambda>e. (get_prop e ''created_at'', get_prop e ''updated_at'',
              ts_le (get_prop e ''created_at'') (get_prop e ''updated_at'')))
        (map_of (db (snd (saveEdit edit1 (snd (importJSON (Some future_payload) fresh_world)))))
           (KStr ''a1''))
      = Some (Some (JStr ''2030-01-01T00:00:00.000Z''), Some (JStr ''2026-01-01T00:00:00.000Z''),
              False)"
  by code_simp

section \<open>Import: normalisation\<close>

lemma digit_char_digit: "d < 10 \<Longrightarrow> digit_char d \<in> digit_chars"
proof -
  assume "d < 10"
  then have "d < length ''0123456789''" by simp
  then have "''0123456789'' ! d \<in> set ''0123456789''" by (rule nth_mem)
  then show ?thesis by (simp only: digit_char_def digit_chars_def)
qed

lemma digits_index_name: "index_name (digits n)"
proof (induction n rule: digits.induct)
  case (1 n)
  show ?case
  proof (cases "n < 10")
    case True
    then have "digits n = [digit_char n]" by (subst digits.simps) simp
    then show ?thesis using digit_char_digit [OF True] by (simp add: index_name_def)
  next
    case False
    then have d: "digits n = digits (n div 10) @ [digit_char (n mod 10)]"
      by (subst digits.simps) simp
    have "n mod 10 < 10" by simp
    then have "digit_char (n mod 10) \<in> digit_chars" by (rule digit_char_digit)
    moreover have "set (digits (n div 10)) \<subseteq> digit_chars"
      using "1.IH" [OF False] by (simp add: index_name_def)
    ultimately show ?thesis
      unfolding d by (simp add: index_name_def)
  qed
qed

lemma map_of_index_props:
  "\<not> index_name k \<Longrightarrow> map_of (zip (map digits [0..<n]) xs) k = None"
proof -
  assume k: "\<not> index_name k"
  have "k \<notin> set (map digits [0..<n])" using k digits_index_name by auto
  then have "k \<notin> fst ` set (zip (map digits [0..<n]) xs)"
    by (auto dest: set_zip_leftD)
  then show ?thesis by (simp add: map_of_eq_None_iff)
qed

lemma get_set_prop:
  assumes "is_object e" "\<not> index_name k"
  shows "get_prop (set_prop e k v) k' = (if k' = k then Some v else get_prop e k')"
proof (cases e)
  case (JArr xs ps)
  define Z where "Z = map_of (zip (map digits [0..<length xs]) xs)"
  have none: "Z k = None"
    unfolding Z_def using assms(2) by (rule map_of_index_props)
  have g: "get_prop (JArr xs qs) k' = (case Z k' of None \<Rightarrow> map_of qs k' | Some x \<Rightarrow> Some x)"
    for qs
    unfolding Z_def by (simp add: get_prop_def map_add_def)
  show ?thesis
  proof (cases "Z k'")
    case None
    then show ?thesis by (simp add: JArr g update_conv')
  next
    case (Some x)
    then have "k' \<noteq> k" using none by auto
    then show ?thesis by (simp add: JArr g Some)
  qed
next
  case (JObj ps)
  then show ?thesis by (simp add: get_prop_def update_conv')
qed (use assms in simp_all)

lemma is_object_set_prop: "is_object (set_prop e k v) = is_object e"
  by (cases e) simp_all

lemma names_not_index:
  "\<not> index_name ''id''" "\<not> index_name ''created_at''" "\<not> index_name ''updated_at''"
  "\<not> index_name ''item''" "\<not> index_name ''location''" "\<not> index_name ''inventory''"
  "\<not> index_name ''date''" "\<not> index_name ''notes''"
  by (simp_all add: index_name_def digit_chars_def)

lemma coerce_text_props:
  assumes "is_object e" "\<not> index_name k" "convertible (get_prop e k)"
  shows "\<exists>e1. coerce_text k e = Inr e1 \<and> is_object e1
    \<and> (\<forall>k'. get_prop e1 k' = (if k' = k then Some (JStr (coerced_text (get_prop e k))) else get_prop e k'))"
proof (cases "\<exists>s. get_prop e k = Some (JStr s)")
  case True
  then obtain s where s: "get_prop e k = Some (JStr s)" by blast
  then have "coerce_text k e = Inr e" by (simp add: coerce_text_def)
  moreover have "coerced_text (get_prop e k) = s"
    by (simp add: s coerced_text_def nullish_or_empty_def)
  ultimately show ?thesis using assms(1) s by auto
next
  case False
  from assms(3) obtain s where s: "to_string (nullish_or_empty (get_prop e k)) = Inr s"
    by (auto simp: convertible_def split: sum.splits)
  have "coerce_text k e = Inr (set_prop e k (JStr s))"
    using False s by (auto simp: coerce_text_def split: option.splits jsval.splits)
  moreover have "coerced_text (get_prop e k) = s" by (simp add: coerced_text_def s)
  ultimately show ?thesis
    using assms(1,2) by (simp add: get_set_prop is_object_set_prop)
qed

lemma coerce_all_props:
  assumes "is_object e" "\<forall>k\<in>set ks. \<not> index_name k" "\<forall>k\<in>set ks. convertible (get_prop e k)"
    "distinct ks"
  shows "\<exists>e1. coerce_all ks e = Inr e1 \<and> is_object e1
    \<and> (\<forall>k'. get_prop e1 k' = (if k' \<in> set ks then Some (JStr (coerced_text (get_prop e k'))) else get_prop e k'))"
  using assms
proof (induction ks arbitrary: e)
  case Nil
  then show ?case by simp
next
  case (Cons k ks)
  from coerce_text_props [of e k] Cons.prems obtain e0 where e0: "coerce_text k e = Inr e0"
    "is_object e0"
    "\<forall>k'. get_prop e0 k' = (if k' = k then Some (JStr (coerced_text (get_prop e k))) else get_prop e k')"
    by auto
  have same: "\<forall>k'\<in>set ks. get_prop e0 k' = get_prop e k'"
    using e0(3) Cons.prems(4) by auto
  have "\<exists>e1. coerce_all ks e0 = Inr e1 \<and> is_object e1
    \<and> (\<forall>k'. get_prop e1 k' = (if k' \<in> set ks then Some (JStr (coerced_text (get_prop e0 k'))) else get_prop e0 k'))"
    using Cons.prems same e0(2) by (intro Cons.IH) auto
  then obtain e1 where e1: "coerce_all ks e0 = Inr e1" "is_object e1"
    "\<forall>k'. get_prop e1 k' = (if k' \<in> set ks then Some (JStr (coerced_text (get_prop e0 k'))) else get_prop e0 k')"
    by blast
  have "get_prop e1 k' = (if k' \<in> set (k # ks) then Some (JStr (coerced_text (get_prop e k'))) else get_prop e k')" for k'
  proof (cases "k' \<in> set ks")
    case True
    then have "k' \<noteq> k" using Cons.prems(4) by auto
    have "get_prop e1 k' = Some (JStr (coerced_text (get_prop e0 k')))"
      using e1(3) True by simp
    also have "get_prop e0 k' = get_prop e k'" using same True by blast
    finally show ?thesis using True by simp
  next
    case False
    then have "get_prop e1 k' = get_prop e0 k'" using e1(3) by simp
    also have "\<dots> = (if k' = k then Some (JStr (coerced_text (get_prop e k))) else get_prop e k')"
      using e0(3) by blast
    finally show ?thesis using False by auto
  qed
  then have "\<forall>k'. get_prop e1 k' = (if k' \<in> set (k # ks) then Some (JStr (coerced_text (get_prop e k'))) else get_prop e k')"
    by blast
  then show ?case using e0(1) e1(1,2) by simp
qed


lemma norm_id_props:
  assumes "is_object e"
  shows "is_object (fst (norm_id e w))"
    and "get_prop (fst (norm_id e w)) k =
      (if k = ''id'' \<and> \<not> truthy (or_empty (get_prop e ''id''))
       then Some (JStr (uuid_src w (uuid_used w))) else get_prop e k)"
    and "snd (norm_id e w) =
      (if truthy (or_empty (get_prop e ''id'')) then w else w\<lparr>uuid_used := Suc (uuid_used w)\<rparr>)"
  using assms
  by (simp_all add: norm_id_def uuid_def get_set_prop is_object_set_prop names_not_index)

lemma norm_created_props:
  assumes "is_object e"
  shows "is_object (fst (norm_created e w))"
    and "get_prop (fst (norm_created e w)) k =
      (if k = ''created_at'' \<and> \<not> truthy (or_empty (get_prop e ''created_at''))
       then Some (JStr (clock_src w (clock_used w))) else get_prop e k)"
    and "snd (norm_created e w) =
      (if truthy (or_empty (get_prop e ''created_at'')) then w
       else w\<lparr>clock_used := Suc (clock_used w)\<rparr>)"
  using assms
  by (simp_all add: norm_created_def nowISO_def get_set_prop is_object_set_prop names_not_index)

lemma norm_updated_props:
  assumes "is_object e"
  shows "is_object (norm_updated e)"
    and "get_prop (norm_updated e) k =
      (if k = ''updated_at'' \<and> get_prop e ''updated_at'' = None then Some JNull
       else get_prop e k)"
  using assms
  by (simp_all add: norm_updated_def get_set_prop is_object_set_prop names_not_index)

lemma text_fields_plain:
  "distinct text_fields" "\<forall>k\<in>set text_fields. \<not> index_name k"
  "''id'' \<notin> set text_fields" "''created_at'' \<notin> set text_fields"
  "''updated_at'' \<notin> set text_fields"
  by (simp_all add: text_fields_def names_not_index)

lemma coerced_text_simps:
  "coerced_text None = []" "coerced_text (Some JNull) = []"
  "coerced_text (Some (JStr s)) = s"
  by (simp_all add: coerced_text_def nullish_or_empty_def)

lemmas import_eval =
  importJSON_def JSON_parse_def entries_of_def normalize_def norm_id_def norm_created_def
  norm_updated_def coerce_text_def text_fields_def nullish_or_empty_def or_empty_def
  get_prop_def uuid_def nowISO_def putEntry_def entry_key_def

lemma import_empty_record:
  "importJSON (Some (JObj [(''entries'', JArr [JObj []] [])])) w =
     (Inr 1,
      w\<lparr>uuid_used := Suc (uuid_used w), clock_used := Suc (clock_used w),
        db := store_put (KStr (uuid_src w (uuid_used w)))
                (JObj [(''id'', JStr (uuid_src w (uuid_used w))),
                       (''created_at'', JStr (clock_src w (clock_used w))),
                       (''updated_at'', JNull), (''item'', JStr []), (''location'', JStr []),
                       (''inventory'', JStr []), (''date'', JStr []), (''notes'', JStr [])])
                (db w)\<rparr>)"
  by (simp add: import_eval)


text \<open>
  C2, as the code has it. Take an element of the payload that passes line 133 and whose five
  text properties convert to strings without raising. Import normalizes it and puts the
  result. The result has the \<^verbatim>\<open>id\<close> of the element, or the next identifier drawn when that is
  missing (or falsy); its \<^verbatim>\<open>created_at\<close>, or the reading of the clock when that is missing (or
  falsy); its \<^verbatim>\<open>updated_at\<close>, or \<^verbatim>\<open>null\<close> when the property is not there; and in each of
  \<^verbatim>\<open>item\<close>, \<^verbatim>\<open>location\<close>, \<^verbatim>\<open>inventory\<close>, \<^verbatim>\<open>date\<close>, \<^verbatim>\<open>notes\<close> a string: the string it had,
  the empty string when the property was \<^verbatim>\<open>null\<close> or not there, and otherwise the conversion
  of its value to a string. Every other property is unchanged. Importing
  \<^verbatim>\<open>{"entries": [{}]}\<close> puts exactly one record: identifier and clock reading drawn,
  \<^verbatim>\<open>updated_at\<close> null, the five texts empty.
\<close>

theorem import_normalizes_records:
  assumes obj: "is_object e"
    and conv: "\<forall>k\<in>set text_fields. convertible (get_prop e k)"
  shows "\<exists>e' w'. normalize e w = (Inr e', w')
     \<and> is_object e'
     \<and> get_prop e' ''id'' =
         (if truthy (or_empty (get_prop e ''id'')) then get_prop e ''id''
          else Some (JStr (uuid_src w (uuid_used w))))
     \<and> get_prop e' ''created_at'' =
         (if truthy (or_empty (get_prop e ''created_at'')) then get_prop e ''created_at''
          else Some (JStr (clock_src w (clock_used w))))
     \<and> get_prop e' ''updated_at'' =
         (if get_prop e ''updated_at'' = None then Some JNull else get_prop e ''updated_at'')
     \<and> (\<forall>k\<in>set text_fields. get_prop e' k = Some (JStr (coerced_text (get_prop e k))))
     \<and> (\<forall>k. k \<notin> set ([''id'', ''created_at'', ''updated_at''] @ text_fields)
            \<longrightarrow> get_prop e' k = get_prop e k)
     \<and> db w' = db w
     \<and> import_loop (e # es) w =
         (case putEntry e' (db w') of
            Inl err \<Rightarrow> (Some err, w')
          | Inr s \<Rightarrow> import_loop es (w'\<lparr>db := s\<rparr>))
     \<and> coerced_text None = [] \<and> coerced_text (Some JNull) = []
     \<and> (\<forall>s. coerced_text (Some (JStr s)) = s)
     \<and> importJSON (Some (JObj [(''entries'', JArr [JObj []] [])])) w =
         (Inr 1,
          w\<lparr>uuid_used := Suc (uuid_used w), clock_used := Suc (clock_used w),
            db := store_put (KStr (uuid_src w (uuid_used w)))
                    (JObj [(''id'', JStr (uuid_src w (uuid_used w))),
                           (''created_at'', JStr (clock_src w (clock_used w))),
                           (''updated_at'', JNull), (''item'', JStr []),
                           (''location'', JStr []), (''inventory'', JStr []),
                           (''date'', JStr []), (''notes'', JStr [])])
                    (db w)\<rparr>)"
proof -
  define e1 where "e1 = fst (norm_id e w)"
  define w1 where "w1 = snd (norm_id e w)"
  define e2 where "e2 = fst (norm_created e1 w1)"
  define w2 where "w2 = snd (norm_created e1 w1)"
  define e3 where "e3 = norm_updated e2"
  have o1: "is_object e1" unfolding e1_def using obj by (rule norm_id_props(1))
  have o2: "is_object e2" unfolding e2_def using o1 by (rule norm_created_props(1))
  have o3: "is_object e3" unfolding e3_def using o2 by (rule norm_updated_props(1))
  have p1: "get_prop e1 k =
      (if k = ''id'' \<and> \<not> truthy (or_empty (get_prop e ''id''))
       then Some (JStr (uuid_src w (uuid_used w))) else get_prop e k)" for k
    unfolding e1_def using obj by (rule norm_id_props(2))
  have c1: "clock_src w1 = clock_src w" "clock_used w1 = clock_used w" "db w1 = db w"
    unfolding w1_def by (simp_all add: norm_id_props(3) [OF obj])
  have p2: "get_prop e2 k =
      (if k = ''created_at'' \<and> \<not> truthy (or_empty (get_prop e1 ''created_at''))
       then Some (JStr (clock_src w (clock_used w))) else get_prop e1 k)" for k
    unfolding e2_def using norm_created_props(2) [OF o1, of w1 k] by (simp add: c1)
  have d2: "db w2 = db w"
    unfolding w2_def by (simp add: norm_created_props(3) [OF o1] c1)
  have p3: "get_prop e3 k =
      (if k = ''updated_at'' \<and> get_prop e2 ''updated_at'' = None then Some JNull
       else get_prop e2 k)" for k
    unfolding e3_def using o2 by (rule norm_updated_props(2))
  have same3: "\<forall>k\<in>set text_fields. get_prop e3 k = get_prop e k"
    by (simp add: p3 p2 p1 text_fields_def)
  then have conv3: "\<forall>k\<in>set text_fields. convertible (get_prop e3 k)"
    using conv by simp
  from coerce_all_props [OF o3 text_fields_plain(2) conv3 text_fields_plain(1)]
  obtain e' where e': "coerce_all text_fields e3 = Inr e'" "is_object e'"
    "\<forall>k'. get_prop e' k' =
        (if k' \<in> set text_fields then Some (JStr (coerced_text (get_prop e3 k')))
         else get_prop e3 k')"
    by blast
  have n: "normalize e w = (Inr e', w2)"
    by (simp add: normalize_def case_prod_unfold e' e1_def [symmetric] w1_def [symmetric]
        e2_def [symmetric] w2_def [symmetric] e3_def [symmetric])
  have texts: "\<forall>k\<in>set text_fields. get_prop e' k = Some (JStr (coerced_text (get_prop e k)))"
    using e'(3) same3 by simp
  have others: "\<forall>k. k \<notin> set ([''id'', ''created_at'', ''updated_at''] @ text_fields)
            \<longrightarrow> get_prop e' k = get_prop e k"
    by (simp add: e'(3) p3 p2 p1)
  have i: "get_prop e' ''id'' =
         (if truthy (or_empty (get_prop e ''id'')) then get_prop e ''id''
          else Some (JStr (uuid_src w (uuid_used w))))"
    by (simp add: e'(3) p3 p2 p1 text_fields_def)
  have c: "get_prop e' ''created_at'' =
         (if truthy (or_empty (get_prop e ''created_at'')) then get_prop e ''created_at''
          else Some (JStr (clock_src w (clock_used w))))"
    by (simp add: e'(3) p3 p2 p1 text_fields_def)
  have u: "get_prop e' ''updated_at'' =
         (if get_prop e ''updated_at'' = None then Some JNull else get_prop e ''updated_at'')"
    by (simp add: e'(3) p3 p2 p1 text_fields_def)
  have l: "import_loop (e # es) w =
         (case putEntry e' (db w2) of
            Inl err \<Rightarrow> (Some err, w2)
          | Inr s \<Rightarrow> import_loop es (w2\<lparr>db := s\<rparr>))"
    using obj by (simp add: n)
  show ?thesis
    apply (rule exI [of _ e'], rule exI [of _ w2])
    apply (intro conjI)
    apply (fact n e'(2) i c u texts others d2 l coerced_text_simps import_empty_record)+
    apply (simp add: coerced_text_simps)
    apply (fact import_empty_record)
    done
qed


theorem import_normalizes_records_witness:
  "is_object (JObj []) \<and> list_all (\<lambda>k. convertible (get_prop (JObj []) k)) text_fields
   \<and> importJSON (Some (JObj [(''entries'', JArr [JObj []] [])])) fresh_world =
       (Inr 1,
        fresh_world\<lparr>db := [(KStr ''uuid-0'',
                   JObj [(''id'', JStr ''uuid-0''),
                         (''created_at'', JStr ''2026-01-01T00:00:00.000Z''),
                         (''updated_at'', JNull), (''item'', JStr []), (''location'', JStr []),
                         (''inventory'', JStr []), (''date'', JStr []), (''notes'', JStr [])])],
                   uuid_used := 1, clock_used := 1\<rparr>)"
proof -
  have o: "is_object (JObj [])" by simp
  have c: "\<forall>k\<in>set text_fields. convertible (get_prop (JObj []) k)"
    by (simp add: text_fields_def convertible_def get_prop_def nullish_or_empty_def)
  have e: "importJSON (Some (JObj [(''entries'', JArr [JObj []] [])])) fresh_world =
       (Inr 1,
        fresh_world\<lparr>db := [(KStr ''uuid-0'',
                   JObj [(''id'', JStr ''uuid-0''),
                         (''created_at'', JStr ''2026-01-01T00:00:00.000Z''),
                         (''updated_at'', JNull), (''item'', JStr []), (''location'', JStr []),
                         (''inventory'', JStr []), (''date'', JStr []), (''notes'', JStr [])])],
                   uuid_used := 1, clock_used := 1\<rparr>)"
    by (simp add: import_eval fresh_world_def digits.simps digit_char_def)
  from import_normalizes_records [OF o c, of fresh_world "[]"] o c e
  show ?thesis by (simp add: list_all_iff)
qed

text \<open>
  C2, as the claim has it, fails on a property that is neither text nor \<^verbatim>\<open>null\<close>: the item
  \<^verbatim>\<open>true\<close> of \<^verbatim>\<open>{"entries": [{"item": true}]}\<close> is stored as the text \<^verbatim>\<open>true\<close>, not as the
  empty text.
\<close>

theorem import_converts_non_text:
  "fst (importJSON (Some bool_payload) fresh_world) = Inr 1
   \<and> map (\<lambda>e. get_prop e ''item'') (getAllEntries (db (snd (importJSON (Some bool_payload) fresh_world))))
      = [Some (JStr ''true'')]"
  by code_simp

section \<open>Import of an export\<close>

lemma key_less_asym: "key_less a b \<Longrightarrow> \<not> key_less b a"
  and keys_less_asym: "keys_less xs ys \<Longrightarrow> \<not> keys_less ys xs"
  by (induction a b and xs ys rule: key_less_keys_less.induct) auto

lemma store_put_stored:
  "sorted_wrt key_less (map fst s) \<Longrightarrow> (k, e) \<in> set s \<Longrightarrow> store_put k e s = s"
proof (induction s)
  case Nil
  then show ?case by simp
next
  case (Cons r s)
  obtain k' v' where r: "r = (k', v')" by (cases r)
  show ?case
  proof (cases "k = k'")
    case True
    have "(k, e) \<notin> set s"
    proof
      assume "(k, e) \<in> set s"
      then have "k \<in> fst ` set s" by force
      then have "key_less k' k" using Cons.prems(1) r by auto
      then show False using True key_less_asym by blast
    qed
    then have "e = v'" using Cons.prems(2) r True by auto
    then show ?thesis using r True by simp
  next
    case False
    then have in_s: "(k, e) \<in> set s" using Cons.prems(2) r by auto
    then have "k \<in> fst ` set s" by force
    then have "key_less k' k" using Cons.prems(1) r by auto
    then have "\<not> key_less k k'" using key_less_asym by blast
    moreover have "store_put k e s = s" using Cons.IH Cons.prems(1) in_s by simp
    ultimately show ?thesis using r False by simp
  qed
qed

lemma coerce_all_strings:
  "list_all (is_string_prop e) ks \<Longrightarrow> coerce_all ks e = Inr e"
  by (induction ks)
    (auto simp: coerce_text_def is_string_prop_def split: option.splits jsval.splits)

lemma normalize_normal: "normal_record e \<Longrightarrow> normalize e w = (Inr e, w)"
  by (auto simp: normal_record_def normalize_def norm_id_def norm_created_def norm_updated_def
      coerce_all_strings)

lemma normal_is_object: "normal_record e \<Longrightarrow> is_object e"
  by (cases e) (simp_all add: normal_record_def)

lemma import_loop_stored:
  assumes "plain_store (db w)" "set es \<subseteq> snd ` set (db w)"
  shows "import_loop es w = (None, w)"
  using assms(2)
proof (induction es)
  case Nil
  then show ?case by simp
next
  case (Cons e es)
  then obtain k where k: "(k, e) \<in> set (db w)" by auto
  then have n: "normal_record e" and ek: "entry_key e = Some k"
    using assms(1) by (auto simp: plain_store_def list_all_iff)
  have "store_put k e (db w) = db w"
    using assms(1) k by (simp add: plain_store_def store_put_stored)
  then have "putEntry e (db w) = Inr (db w)" by (simp add: putEntry_def ek)
  moreover have "import_loop es w = (None, w)" using Cons by simp
  ultimately show ?case
    by (simp add: normal_is_object [OF n] normalize_normal [OF n])
qed

lemma insert_sorted_result:
  "insert_sorted cmp x ys = Inr zs \<Longrightarrow> set zs = insert x (set ys) \<and> length zs = Suc (length ys)"
proof (induction ys arbitrary: zs)
  case Nil
  then show ?case by auto
next
  case (Cons y ys)
  from Cons.prems obtain c where c: "cmp x y = Inr c"
    by (cases "cmp x y") simp_all
  show ?case
  proof (cases "c < 0")
    case False
    then have "zs = x # y # ys" using Cons.prems c by simp
    then show ?thesis by auto
  next
    case True
    then obtain zs' where zs': "insert_sorted cmp x ys = Inr zs'" "zs = y # zs'"
      using Cons.prems c by (cases "insert_sorted cmp x ys") simp_all
    from Cons.IH [OF zs'(1)] zs'(2) show ?thesis by auto
  qed
qed

lemma sort_from_result:
  "sort_from cmp front xs = Inr ys \<Longrightarrow>
   set ys = set front \<union> set xs \<and> length ys = length front + length xs"
proof (induction xs arbitrary: front)
  case Nil
  then show ?case by auto
next
  case (Cons x xs)
  then obtain zs where zs: "insert_sorted cmp x front = Inr zs" "sort_from cmp zs xs = Inr ys"
    by (cases "insert_sorted cmp x front") simp_all
  from Cons.IH [OF zs(2)] insert_sorted_result [OF zs(1)] show ?case by simp
qed

lemma sort_with_result:
  "sort_with cmp xs = Inr ys \<Longrightarrow> set ys = set xs \<and> length ys = length xs"
  using sort_from_result [of cmp "[]" xs ys] by (simp add: sort_with_def)

lemma text_value_json_of: "text_value (json_of v) = json_of v"
  by (induction v) (auto simp: prod.map_comp comp_def intro!: prod.map_cong0)

lemma import_of_export:
  assumes plain: "plain_store (db w)" and ex: "exportJSON lc w = (Inr t, w1)"
  shows "importJSON t w1 = (Inr (length (db w)), w1) \<and> db w1 = db w"
proof -
  from ex obtain es where es: "sort_with (newest_first lc) (getAllEntries (db w)) = Inr es"
    and t: "t = JSON_stringify (JObj [(''exported_at'', JStr (clock_src w (clock_used w))),
                      (''entries'', JArr es [])])"
    and w1: "w1 = w\<lparr>clock_used := Suc (clock_used w)\<rparr>"
    by (auto simp: exportJSON_def nowISO_def split: sum.splits)
  have set_es: "set es = snd ` set (db w)"
    using sort_with_result [OF es] by (simp add: getAllEntries_def)
  have len: "length es = length (db w)"
    using sort_with_result [OF es] by (simp add: getAllEntries_def)
  have "\<forall>e\<in>set es. json_of e = e"
    using set_es plain by (auto simp: plain_store_def list_all_iff normal_record_def)
  then have m: "map json_of es = es" by (simp add: map_idI)
  have parsed: "JSON_parse t =
      Inr (JObj [(''exported_at'', JStr (clock_src w (clock_used w))), (''entries'', JArr es [])])"
    using text_value_json_of [of "JObj [(''exported_at'', JStr (clock_src w (clock_used w))),
        (''entries'', JArr es [])]"]
    by (simp add: t JSON_stringify_def JSON_parse_def m)
  have d: "db w1 = db w" by (simp add: w1)
  have "import_loop es w1 = (None, w1)"
    using plain set_es by (intro import_loop_stored) (simp_all add: d)
  then show ?thesis
    by (simp add: importJSON_def parsed entries_of_def len d)
qed

lemma export_three_world:
  "exportJSON code_unit_compare three_world =
        (Inr (Some (JObj [(''exported_at'', JStr ''2026-01-01T00:00:00.000Z''),
                          (''entries'', JArr [wrench, drill, ladder] [])])),
         three_world\<lparr>clock_used := 1\<rparr>)"
  by (simp add: exportJSON_def sort_with_def world_eval getAllEntries_def newest_first_def read_prop_def
      get_prop_def or_empty_def code_unit_compare_def nowISO_def JSON_stringify_def
      digits.simps digit_char_def)

lemma plain_three_world: "plain_store (db three_world)"
  by (simp add: plain_store_def world_eval entry_key_def get_prop_def normal_record_def
      or_empty_def text_fields_def is_string_prop_def)

text \<open>
  On a store of plain records the import of the export changes nothing. A plain record is
  an object, as create and edit build it and as import leaves an object of the payload,
  all of whose values the JSON text holds as they are. Then import of the export leaves the
  store as it was, record for record and in the same order; and when export succeeds,
  import succeeds too and reports the number of stored records. (Export still raises when
  a \<^verbatim>\<open>created_at\<close> is not text; then nothing is imported.)
\<close>

lemma import_export_plain_store:
  assumes "plain_store (db w)"
  shows "db (snd (import_export lc w)) = db w
     \<and> (\<forall>t w1. exportJSON lc w = (Inr t, w1) \<longrightarrow>
            import_export lc w = (Inr (length (db w)), w1))"
proof -
  have ok: "\<forall>t w1. exportJSON lc w = (Inr t, w1) \<longrightarrow>
            import_export lc w = (Inr (length (db w)), w1) \<and> db w1 = db w"
    using import_of_export [OF assms] by (simp add: import_export_def)
  have fail: "\<forall>err w1. exportJSON lc w = (Inl err, w1) \<longrightarrow> w1 = w"
    by (auto simp: exportJSON_def nowISO_def split: sum.splits)
  show ?thesis
  proof (cases "exportJSON lc w")
    case (Pair r w1)
    show ?thesis
    proof (cases r)
      case (Inl err)
      then show ?thesis using Pair fail by (simp add: import_export_def)
    next
      case (Inr t)
      then show ?thesis using Pair ok by simp
    qed
  qed
qed

lemma import_export_three_world:
  "plain_store (db three_world)
   \<and> import_export code_unit_compare three_world = (Inr 3, three_world\<lparr>clock_used := 1\<rparr>)
   \<and> db (snd (import_export code_unit_compare three_world)) = db three_world"
proof -
  from import_export_plain_store [OF plain_three_world, of code_unit_compare]
  have "db (snd (import_export code_unit_compare three_world)) = db three_world"
    and "import_export code_unit_compare three_world
         = (Inr (length (db three_world)), three_world\<lparr>clock_used := 1\<rparr>)"
    using export_three_world by blast+
  moreover have "length (db three_world) = 3" by (simp add: three_world_def)
  ultimately show ?thesis using plain_three_world by simp
qed

text \<open>
  A number that the JSON text does not hold is not plain, and does not come back: import
  reads \<^verbatim>\<open>1e400\<close> as \<^verbatim>\<open>Infinity\<close> and stores it, export writes \<^verbatim>\<open>null\<close> for it, and the import
  of the export stores \<^verbatim>\<open>null\<close> over it.
\<close>

lemma import_export_loses_infinite_number:
  "map (\<lambda>e. get_prop e ''count'')
      (getAllEntries (db (snd (importJSON (Some infinite_payload) fresh_world))))
     = [Some (JInf True)]
   \<and> map (\<lambda>e. get_prop e ''count'')
      (getAllEntries (db (snd (import_export code_unit_compare
          (snd (importJSON (Some infinite_payload) fresh_world))))))
     = [Some JNull]"
  by code_simp

text \<open>
  C3. Running import on the output of export leaves the stored collection unchanged. The
  code means import to take records that are objects: line 128 asks \<^verbatim>\<open>Array.isArray\<close> of the
  payload's \<^verbatim>\<open>entries\<close>, and line 133 skips what is not an object. But line 133 tests with
  \<^verbatim>\<open>typeof\<close>, which answers \<^verbatim>\<open>"object"\<close> for an array too. The import of \<^verbatim>\<open>{"entries": [[]]}\<close>
  into the empty store assigns \<^verbatim>\<open>id\<close> and the other properties to the array and stores it
  under the first identifier drawn. The export writes the array as \<^verbatim>\<open>[]\<close>, since a JSON text
  has no named properties on arrays; the import of that text finds no \<^verbatim>\<open>id\<close>, draws a second
  identifier, and the store has two records where it had one.
\<close>

theorem import_export_adds_record:
  "map (\<lambda>e. get_prop e ''id'')
      (getAllEntries (db (snd (importJSON (Some array_payload) fresh_world))))
     = [Some (JStr ''uuid-0'')]
   \<and> map (\<lambda>e. get_prop e ''id'')
      (getAllEntries (db (snd (import_export code_unit_compare
          (snd (importJSON (Some array_payload) fresh_world))))))
     = [Some (JStr ''uuid-0''), Some (JStr ''uuid-1'')]"
  by code_simp

section \<open>What the operations keep true of the store\<close>

text \<open>
  The statements about search and update above speak of entries whose text properties hold
  text and of records stored under their own \<^verbatim>\<open>id\<close>. Every store that the program builds is
  of this kind: the empty store is, and create, edit, delete and import keep it so, whatever
  the payload and also when import raises half way.
\<close>

lemma store_inv_empty: "store_inv []"
  by (simp add: store_inv_def)

lemma set_store_put: "set (store_put k v s) \<subseteq> insert (k, v) (set s)"
  by (induction s) (auto split: if_splits)

lemma store_put_inv: "store_inv s \<Longrightarrow> stored_ok (k, e) \<Longrightarrow> store_inv (store_put k e s)"
  using set_store_put [of k e s] by (auto simp: store_inv_def list_all_iff)

lemma store_delete_inv: "store_inv s \<Longrightarrow> store_inv (store_delete k s)"
  by (simp add: store_inv_def store_delete_def list_all_iff)

lemma coerce_text_result:
  assumes "is_object e" "\<not> index_name k" "coerce_text k e = Inr e1"
  shows "is_object e1 \<and> is_string_prop e1 k \<and> (\<forall>k'. is_string_prop e k' \<longrightarrow> is_string_prop e1 k')"
proof (cases "\<exists>s. get_prop e k = Some (JStr s)")
  case True
  then have "e1 = e" using assms(3) by (auto simp: coerce_text_def)
  then show ?thesis using assms(1) True by (auto simp: is_string_prop_def)
next
  case False
  then obtain s where "e1 = set_prop e k (JStr s)"
    using assms(3) by (auto simp: coerce_text_def split: option.splits jsval.splits sum.splits)
  then show ?thesis
    using assms(1,2) by (simp add: is_string_prop_def get_set_prop is_object_set_prop)
qed

lemma coerce_all_result:
  assumes "is_object e" "\<forall>k\<in>set ks. \<not> index_name k" "coerce_all ks e = Inr e'"
  shows "is_object e' \<and> list_all (is_string_prop e') ks
     \<and> (\<forall>k'. is_string_prop e k' \<longrightarrow> is_string_prop e' k')"
  using assms
proof (induction ks arbitrary: e)
  case Nil
  then show ?case by simp
next
  case (Cons k ks)
  from Cons.prems(3) obtain e1 where e1: "coerce_text k e = Inr e1" "coerce_all ks e1 = Inr e'"
    by (cases "coerce_text k e") simp_all
  have r1: "is_object e1" "is_string_prop e1 k" "\<forall>k'. is_string_prop e k' \<longrightarrow> is_string_prop e1 k'"
    using coerce_text_result [OF Cons.prems(1) _ e1(1)] Cons.prems(2) by auto
  have r2: "is_object e'" "list_all (is_string_prop e') ks"
    "\<forall>k'. is_string_prop e1 k' \<longrightarrow> is_string_prop e' k'"
    using Cons.IH [OF r1(1) _ e1(2)] Cons.prems(2) by auto
  show ?case using r1 r2 by simp
qed

lemma normalize_db: "db (snd (normalize e w)) = db w"
  by (simp add: normalize_def norm_id_def norm_created_def uuid_def nowISO_def)

lemma normalize_result:
  assumes "is_object e" "normalize e w = (Inr e', w')"
  shows "is_object e' \<and> list_all (is_string_prop e') text_fields"
proof -
  define e3 where "e3 = norm_updated (fst (norm_created (fst (norm_id e w)) (snd (norm_id e w))))"
  have "is_object e3"
    unfolding e3_def using assms(1)
    by (simp add: norm_updated_def norm_created_def norm_id_def is_object_set_prop
        uuid_def nowISO_def)
  moreover have "coerce_all text_fields e3 = Inr e'"
    using assms(2) by (simp add: normalize_def e3_def case_prod_unfold)
  ultimately show ?thesis
    using coerce_all_result [of e3 text_fields e'] text_fields_plain(2) by blast
qed

lemma import_loop_inv: "store_inv (db w) \<Longrightarrow> store_inv (db (snd (import_loop es w)))"
proof (induction es arbitrary: w)
  case Nil
  then show ?case by simp
next
  case (Cons e es)
  show ?case
  proof (cases "is_object e")
    case False
    then show ?thesis using Cons by simp
  next
    case True
    obtain r w1 where n: "normalize e w = (r, w1)" by (cases "normalize e w")
    have d: "db w1 = db w" using normalize_db [of e w] n by simp
    show ?thesis
    proof (cases r)
      case (Inl err)
      then show ?thesis using True n d Cons.prems by simp
    next
      case (Inr e')
      have ok: "is_object e'" "list_all (is_string_prop e') text_fields"
        using normalize_result [OF True] n Inr by auto
      show ?thesis
      proof (cases "entry_key e'")
        case None
        then show ?thesis using True n Inr d Cons.prems by (simp add: putEntry_def)
      next
        case (Some k)
        have "stored_ok (k, e')" using ok Some by (simp add: stored_ok_def)
        then have "store_inv (store_put k e' (db w1))"
          using Cons.prems d by (simp add: store_put_inv)
        then have "store_inv (db (snd (import_loop es (w1\<lparr>db := store_put k e' (db w1)\<rparr>))))"
          by (intro Cons.IH) simp
        then show ?thesis using True n Inr Some by (simp add: putEntry_def)
      qed
    qed
  qed
qed

lemma importJSON_inv: "store_inv (db w) \<Longrightarrow> store_inv (db (snd (importJSON t w)))"
proof -
  assume inv: "store_inv (db w)"
  have loop: "store_inv (db (snd (import_loop es w)))" for es
    using inv by (rule import_loop_inv)
  show ?thesis
  proof (cases "JSON_parse t")
    case (Inl err)
    then show ?thesis using inv by (simp add: importJSON_def)
  next
    case (Inr parsed)
    show ?thesis
    proof (cases "entries_of parsed")
      case None
      then show ?thesis using inv Inr by (simp add: importJSON_def)
    next
      case (Some es)
      obtain r w' where l: "import_loop es w = (r, w')" by (cases "import_loop es w")
      then have "store_inv (db w')" using loop [of es] by simp
      then show ?thesis using Inr Some l by (cases r) (simp_all add: importJSON_def)
    qed
  qed
qed

lemma logForm_submit_inv: "store_inv (db w) \<Longrightarrow> store_inv (db (snd (logForm_submit f w)))"
proof -
  assume inv: "store_inv (db w)"
  let ?e = "JObj [(''id'', JStr (uuid_src w (uuid_used w))),
                  (''created_at'', JStr (clock_src w (clock_used w))),
                  (''updated_at'', JNull), (''item'', JStr (trim (fItem f))),
                  (''location'', JStr (trim (fLocation f))),
                  (''inventory'', JStr (trim (fInventory f))),
                  (''date'', JStr (trim (fDate f))), (''notes'', JStr (trim (fNotes f)))]"
  have "stored_ok (KStr (uuid_src w (uuid_used w)), ?e)"
    by (simp add: stored_ok_def entry_key_def get_prop_def text_fields_def is_string_prop_def)
  then have "store_inv (store_put (KStr (uuid_src w (uuid_used w))) ?e (db w))"
    using inv by (simp add: store_put_inv)
  then show ?thesis
    using inv
    by (simp add: logForm_submit_def Let_def uuid_def nowISO_def addEntry_def entry_key_def
        get_prop_def)
qed

lemma merge_edit_strings: "list_all (is_string_prop (merge_edit e f item t)) text_fields"
  by (simp add: text_fields_def is_string_prop_def get_prop_merge_edit)

lemma saveEdit_inv: "store_inv (db w) \<Longrightarrow> store_inv (db (snd (saveEdit f w)))"
proof -
  assume inv: "store_inv (db w)"
  have "store_inv (store_put k (merge_edit e f item t) (db w))"
    if "entry_key (merge_edit e f item t) = Some k" for k e item t
  proof (intro store_put_inv)
    show "store_inv (db w)" by (rule inv)
    have "is_object (merge_edit e f item t)" by (simp add: merge_edit_def)
    then show "stored_ok (k, merge_edit e f item t)"
      using that by (simp add: stored_ok_def merge_edit_strings)
  qed
  then show ?thesis
    using inv
    by (auto simp: saveEdit_def Let_def getEntry_def nowISO_def putEntry_def
        split: option.splits)
qed

lemma confirmDelete_inv: "store_inv (db w) \<Longrightarrow> store_inv (db (snd (confirmDelete i ok w)))"
  by (simp add: confirmDelete_def deleteEntry_def store_delete_inv)

lemma stored_searchable: "store_inv s \<Longrightarrow> e \<in> set (getAllEntries s) \<Longrightarrow> searchable e"
proof -
  assume "store_inv s" "e \<in> set (getAllEntries s)"
  then have o: "is_object e" and t: "list_all (is_string_prop e) text_fields"
    by (auto simp: store_inv_def list_all_iff getAllEntries_def stored_ok_def)
  have "e \<noteq> JNull" using o by auto
  moreover have "is_text (get_prop e ''item'')" "is_text (get_prop e ''location'')"
    "is_text (get_prop e ''notes'')"
    using t by (auto simp: text_fields_def is_string_prop_def is_text_def
        split: option.splits jsval.splits)
  ultimately show ?thesis by (simp add: searchable_def)
qed

lemma stored_lookup:
  "store_inv s \<Longrightarrow> map_of s k = Some e \<Longrightarrow> is_object e \<and> entry_key e = Some k"
proof -
  assume inv: "store_inv s" and m: "map_of s k = Some e"
  from m have "(k, e) \<in> set s" by (rule map_of_SomeD)
  then have "stored_ok (k, e)" using inv by (auto simp: store_inv_def list_all_iff)
  then show ?thesis by (simp add: stored_ok_def)
qed

section \<open>Plain stores\<close>

text \<open>
  The statement about the import of an export speaks of stores of plain records in key
  order. The empty store is one, and create, edit and delete keep it so, as does the import
  of a payload none of whose elements is an array or holds a value that a JSON text does
  not hold, when the platform's identifiers and clock readings are not empty. The order of
  keys is a strict linear order.
\<close>

lemma key_less_total: "a \<noteq> b \<Longrightarrow> key_less a b \<or> key_less b a"
  and keys_less_total: "xs \<noteq> ys \<Longrightarrow> keys_less xs ys \<or> keys_less ys xs"
  by (induction a b and xs ys rule: key_less_keys_less.induct) auto

lemma key_less_trans: "key_less a b \<Longrightarrow> key_less b c \<Longrightarrow> key_less a c"
  and keys_less_trans: "keys_less xs ys \<Longrightarrow> keys_less ys zs \<Longrightarrow> keys_less xs zs"
proof (induction a b and xs ys arbitrary: c and zs rule: key_less_keys_less.induct)
  case (20 x xs y ys)
  then obtain z zs' where zs: "zs = z # zs'" by (cases zs) auto
  from "20.prems" have xy: "key_less x y \<or> (\<not> key_less y x \<and> keys_less xs ys)" by simp
  from "20.prems" zs have yz: "key_less y z \<or> (\<not> key_less z y \<and> keys_less ys zs')" by simp
  have eq_xy: "\<not> key_less x y \<Longrightarrow> \<not> key_less y x \<Longrightarrow> x = y" using key_less_total by blast
  have eq_yz: "\<not> key_less y z \<Longrightarrow> \<not> key_less z y \<Longrightarrow> y = z" using key_less_total by blast
  show ?case
  proof (cases "key_less x y")
    case True
    show ?thesis
    proof (cases "key_less y z")
      case yz': True
      then have "key_less x z" using "20.IH"(1) True by blast
      then show ?thesis using zs by simp
    next
      case False
      then have "y = z" using yz eq_yz by blast
      then show ?thesis using True zs by simp
    qed
  next
    case False
    then have x: "x = y" "keys_less xs ys" using xy eq_xy by blast+
    show ?thesis
    proof (cases "key_less y z")
      case True
      then show ?thesis using x zs by simp
    next
      case nyz: False
      then have "y = z" "keys_less ys zs'" using yz eq_yz by blast+
      moreover have "keys_less xs zs'"
        using "20.IH"(3) False x \<open>keys_less ys zs'\<close> key_less_asym by blast
      ultimately show ?thesis using x zs nyz \<open>y = z\<close> by (simp add: key_less_asym)
    qed
  qed
qed (case_tac c; simp; fail | case_tac zs; simp; fail | simp)+

lemma keys_store_put: "fst ` set (store_put k v s) = insert k (fst ` set s)"
proof (induction s)
  case Nil
  then show ?case by simp
next
  case (Cons r s)
  obtain k' v' where r: "r = (k', v')" by (cases r)
  show ?case using Cons.IH by (simp add: r insert_commute)
qed

lemma store_put_sorted:
  "sorted_wrt key_less (map fst s) \<Longrightarrow> sorted_wrt key_less (map fst (store_put k v s))"
proof (induction s)
  case Nil
  then show ?case by simp
next
  case (Cons r s)
  obtain k' v' where r: "r = (k', v')" by (cases r)
  have below: "\<forall>x\<in>fst ` set s. key_less k' x" and rest: "sorted_wrt key_less (map fst s)"
    using Cons.prems r by auto
  show ?case
  proof (cases "k = k'")
    case True
    then show ?thesis using r below rest by auto
  next
    case False
    show ?thesis
    proof (cases "key_less k k'")
      case True
      then have "\<forall>x\<in>fst ` set s. key_less k x" using below key_less_trans by blast
      then show ?thesis using r False True below rest by auto
    next
      case nlt: False
      then have "key_less k' k" using False key_less_total by blast
      then have "\<forall>x\<in>fst ` set (store_put k v s). key_less k' x"
        using below by (simp add: keys_store_put)
      moreover have "sorted_wrt key_less (map fst (store_put k v s))"
        using Cons.IH rest by simp
      ultimately show ?thesis using r False nlt by auto
    qed
  qed
qed

lemma store_delete_sorted:
  "sorted_wrt key_less (map fst s) \<Longrightarrow> sorted_wrt key_less (map fst (store_delete k s))"
  by (induction s) (auto simp: store_delete_def)

lemma store_put_plain:
  assumes "plain_store s" "entry_key e = Some k" "normal_record e"
  shows "plain_store (store_put k e s)"
proof -
  have "sorted_wrt key_less (map fst (store_put k e s))"
    using assms(1) by (simp add: plain_store_def store_put_sorted)
  moreover have "list_all (\<lambda>r. entry_key (snd r) = Some (fst r) \<and> normal_record (snd r))
      (store_put k e s)"
    using assms set_store_put [of k e s] by (auto simp: plain_store_def list_all_iff)
  ultimately show ?thesis by (simp add: plain_store_def)
qed

lemma store_delete_plain: "plain_store s \<Longrightarrow> plain_store (store_delete k s)"
proof -
  assume p: "plain_store s"
  then have "sorted_wrt key_less (map fst (store_delete k s))"
    by (simp add: plain_store_def store_delete_sorted)
  moreover have "list_all (\<lambda>r. entry_key (snd r) = Some (fst r) \<and> normal_record (snd r))
      (store_delete k s)"
    using p by (simp add: plain_store_def list_all_iff store_delete_def)
  ultimately show ?thesis by (simp add: plain_store_def)
qed

lemma map_update_fixed:
  "map (map_prod id g) ps = ps \<Longrightarrow> g v = v \<Longrightarrow>
   map (map_prod id g) (AList.update k v ps) = AList.update k v ps"
  by (induction ps) auto

lemma set_prop_record:
  assumes "is_record e" "json_of e = e" "json_of v = v"
  shows "is_record (set_prop e k v) \<and> json_of (set_prop e k v) = set_prop e k v"
  using assms by (cases e) (simp_all add: map_update_fixed)

lemma is_record_object: "is_record e \<Longrightarrow> is_object e"
  by (cases e) simp_all

lemma coerce_text_record:
  assumes "is_record e" "json_of e = e" "coerce_text k e = Inr e1"
  shows "is_record e1 \<and> json_of e1 = e1"
proof (cases "\<exists>s. get_prop e k = Some (JStr s)")
  case True
  then have "e1 = e" using assms(3) by (auto simp: coerce_text_def)
  then show ?thesis using assms by simp
next
  case False
  then obtain s where "e1 = set_prop e k (JStr s)"
    using assms(3) by (auto simp: coerce_text_def split: option.splits jsval.splits sum.splits)
  then show ?thesis using set_prop_record [OF assms(1,2), of "JStr s" k] by simp
qed

lemma coerce_text_other:
  assumes "is_object e" "\<not> index_name k" "coerce_text k e = Inr e1" "k' \<noteq> k"
  shows "get_prop e1 k' = get_prop e k'"
proof (cases "\<exists>s. get_prop e k = Some (JStr s)")
  case True
  then have "e1 = e" using assms(3) by (auto simp: coerce_text_def)
  then show ?thesis by simp
next
  case False
  then obtain s where "e1 = set_prop e k (JStr s)"
    using assms(3) by (auto simp: coerce_text_def split: option.splits jsval.splits sum.splits)
  then show ?thesis using assms(1,2,4) by (simp add: get_set_prop)
qed

lemma coerce_all_record:
  assumes "is_record e" "json_of e = e" "\<forall>k\<in>set ks. \<not> index_name k"
    "coerce_all ks e = Inr e'"
  shows "is_record e' \<and> json_of e' = e' \<and> (\<forall>k'. k' \<notin> set ks \<longrightarrow> get_prop e' k' = get_prop e k')"
  using assms
proof (induction ks arbitrary: e)
  case Nil
  then show ?case by simp
next
  case (Cons k ks)
  from Cons.prems(4) obtain e1 where e1: "coerce_text k e = Inr e1" "coerce_all ks e1 = Inr e'"
    by (cases "coerce_text k e") simp_all
  have r1: "is_record e1" "json_of e1 = e1"
    using coerce_text_record [OF Cons.prems(1,2) e1(1)] by simp_all
  have o1: "\<forall>k'. k' \<noteq> k \<longrightarrow> get_prop e1 k' = get_prop e k'"
    using coerce_text_other [OF is_record_object [OF Cons.prems(1)] _ e1(1)] Cons.prems(3)
    by simp
  have r2: "is_record e'" "json_of e' = e'"
    "\<forall>k'. k' \<notin> set ks \<longrightarrow> get_prop e' k' = get_prop e1 k'"
    using Cons.IH [OF r1 _ e1(2)] Cons.prems(3) by simp_all
  show ?case using r2 o1 by simp
qed

lemma normalize_plain:
  assumes rec: "is_record e" and pure: "json_of e = e" and env: "env_ok w"
    and n: "normalize e w = (Inr e', w')"
  shows "normal_record e'"
proof -
  have obj: "is_object e" using rec by (rule is_record_object)
  define e1 where "e1 = fst (norm_id e w)"
  define w1 where "w1 = snd (norm_id e w)"
  define e2 where "e2 = fst (norm_created e1 w1)"
  define e3 where "e3 = norm_updated e2"
  have r1: "is_record e1 \<and> json_of e1 = e1"
    unfolding e1_def using set_prop_record [OF rec pure, of "JStr (uuid_src w (uuid_used w))" "''id''"]
      rec pure
    by (simp add: norm_id_def uuid_def)
  have r2: "is_record e2 \<and> json_of e2 = e2"
    unfolding e2_def
    using set_prop_record [of e1 "JStr (clock_src w1 (clock_used w1))" "''created_at''"] r1
    by (simp add: norm_created_def nowISO_def)
  have r3: "is_record e3 \<and> json_of e3 = e3"
    unfolding e3_def using set_prop_record [of e2 JNull "''updated_at''"] r2
    by (simp add: norm_updated_def)
  have o1: "is_object e1" using r1 is_record_object by blast
  have o2: "is_object e2" using r2 is_record_object by blast
  have o3: "is_object e3" using r3 is_record_object by blast
  have p1: "get_prop e1 k =
      (if k = ''id'' \<and> \<not> truthy (or_empty (get_prop e ''id''))
       then Some (JStr (uuid_src w (uuid_used w))) else get_prop e k)" for k
    unfolding e1_def using obj by (rule norm_id_props(2))
  have p2: "get_prop e2 k =
      (if k = ''created_at'' \<and> \<not> truthy (or_empty (get_prop e1 ''created_at''))
       then Some (JStr (clock_src w1 (clock_used w1))) else get_prop e1 k)" for k
    unfolding e2_def using o1 by (rule norm_created_props(2))
  have p3: "get_prop e3 k =
      (if k = ''updated_at'' \<and> get_prop e2 ''updated_at'' = None then Some JNull
       else get_prop e2 k)" for k
    unfolding e3_def using o2 by (rule norm_updated_props(2))
  have cs: "clock_src w1 = clock_src w"
    unfolding w1_def by (simp add: norm_id_props(3) [OF obj])
  have c: "coerce_all text_fields e3 = Inr e'"
    using n by (simp add: normalize_def case_prod_unfold e1_def w1_def e2_def e3_def)
  from coerce_all_record [OF _ _ text_fields_plain(2) c] r3
  have r: "is_record e'" "json_of e' = e'"
    "\<forall>k'. k' \<notin> set text_fields \<longrightarrow> get_prop e' k' = get_prop e3 k'"
    by simp_all
  from coerce_all_result [OF o3 text_fields_plain(2) c]
  have strs: "list_all (is_string_prop e') text_fields" by simp
  have u: "uuid_src w (uuid_used w) \<noteq> []" "clock_src w (clock_used w1) \<noteq> []"
    using env by (simp_all add: env_ok_def)
  have i: "truthy (or_empty (get_prop e' ''id''))"
    using r(3) u by (simp add: text_fields_def p3 p2 p1 or_empty_def)
  have cr: "truthy (or_empty (get_prop e' ''created_at''))"
    using r(3) u by (simp add: text_fields_def p3 p2 p1 cs or_empty_def)
  have up: "get_prop e' ''updated_at'' \<noteq> None"
    using r(3) by (simp add: text_fields_def p3)
  show ?thesis
    using r(1,2) i cr up strs by (simp add: normal_record_def)
qed

lemma normalize_env: "env_ok w \<Longrightarrow> env_ok (snd (normalize e w))"
  by (simp add: normalize_def norm_id_def norm_created_def uuid_def nowISO_def env_ok_def)

lemma json_of_idem: "json_of (json_of v) = json_of v"
  by (induction v) (auto simp: prod.map_comp comp_def intro!: prod.map_cong0)

lemma import_loop_plain:
  assumes "\<forall>e\<in>set es. \<not> is_array e \<and> json_of e = e" "plain_store (db w)" "env_ok w"
  shows "plain_store (db (snd (import_loop es w)))"
  using assms
proof (induction es arbitrary: w)
  case Nil
  then show ?case by simp
next
  case (Cons e es)
  have rest: "\<forall>e\<in>set es. \<not> is_array e \<and> json_of e = e" using Cons.prems(1) by simp
  show ?case
  proof (cases "is_object e")
    case False
    then show ?thesis using Cons.IH [OF rest Cons.prems(2,3)] by simp
  next
    case True
    then have rec: "is_record e" using Cons.prems(1) by (cases e) simp_all
    have pure: "json_of e = e" using Cons.prems(1) by simp
    obtain r w1 where n: "normalize e w = (r, w1)" by (cases "normalize e w")
    have d: "db w1 = db w" using normalize_db [of e w] n by simp
    have env1: "env_ok w1" using normalize_env [OF Cons.prems(3), of e] n by simp
    show ?thesis
    proof (cases r)
      case (Inl err)
      then show ?thesis using True n d Cons.prems(2) by simp
    next
      case (Inr e')
      have nr: "normal_record e'"
        using normalize_plain [OF rec pure Cons.prems(3)] n Inr by simp
      show ?thesis
      proof (cases "entry_key e'")
        case None
        then show ?thesis using True n Inr d Cons.prems(2) by (simp add: putEntry_def)
      next
        case (Some k)
        have "plain_store (store_put k e' (db w1))"
          using Cons.prems(2) d Some nr by (simp add: store_put_plain)
        moreover have "env_ok (w1\<lparr>db := store_put k e' (db w1)\<rparr>)"
          using env1 by (simp add: env_ok_def)
        ultimately
        have "plain_store (db (snd (import_loop es (w1\<lparr>db := store_put k e' (db w1)\<rparr>))))"
          using rest by (intro Cons.IH) simp_all
        then show ?thesis using True n Inr Some by (simp add: putEntry_def)
      qed
    qed
  qed
qed

lemma importJSON_plain:
  assumes "plain_store (db w)" "env_ok w"
    and "\<forall>es. entries_of (text_value doc) = Some es \<longrightarrow>
           (\<forall>e\<in>set es. \<not> is_array e \<and> json_of e = e)"
  shows "plain_store (db (snd (importJSON (Some doc) w)))"
proof (cases "entries_of (text_value doc)")
  case None
  then show ?thesis using assms(1) by (simp add: importJSON_def JSON_parse_def)
next
  case (Some es)
  have "\<forall>e\<in>set es. \<not> is_array e \<and> json_of e = e"
    using assms(3) Some by simp
  from import_loop_plain [OF this assms(1,2)]
  have p: "plain_store (db (snd (import_loop es w)))" .
  obtain r w' where l: "import_loop es w = (r, w')" by (cases "import_loop es w")
  then show ?thesis
    using p Some by (cases r) (simp_all add: importJSON_def JSON_parse_def)
qed

lemma logForm_submit_plain:
  assumes "plain_store (db w)" "env_ok w"
  shows "plain_store (db (snd (logForm_submit f w)))"
proof -
  let ?e = "JObj [(''id'', JStr (uuid_src w (uuid_used w))),
                  (''created_at'', JStr (clock_src w (clock_used w))),
                  (''updated_at'', JNull), (''item'', JStr (trim (fItem f))),
                  (''location'', JStr (trim (fLocation f))),
                  (''inventory'', JStr (trim (fInventory f))),
                  (''date'', JStr (trim (fDate f))), (''notes'', JStr (trim (fNotes f)))]"
  have u: "uuid_src w (uuid_used w) \<noteq> []" "clock_src w (clock_used w) \<noteq> []"
    using assms(2) by (simp_all add: env_ok_def)
  have k: "entry_key ?e = Some (KStr (uuid_src w (uuid_used w)))"
    by (simp add: entry_key_def get_prop_def)
  have "normal_record ?e"
    using u by (simp add: normal_record_def get_prop_def or_empty_def text_fields_def
        is_string_prop_def)
  then have "plain_store (store_put (KStr (uuid_src w (uuid_used w))) ?e (db w))"
    using assms(1) k by (simp add: store_put_plain)
  then show ?thesis
    using assms(1) k
    by (simp add: logForm_submit_def Let_def uuid_def nowISO_def addEntry_def)
qed

lemma merge_edit_normal:
  assumes "normal_record e"
  shows "normal_record (merge_edit e f item t)"
proof -
  from assms obtain ps where e: "e = JObj ps" and pure: "map (map_prod id json_of) ps = ps"
    by (cases e) (simp_all add: normal_record_def)
  have "json_of (merge_edit e f item t) = merge_edit e f item t"
    by (simp add: merge_edit_def e pure map_update_fixed)
  moreover have "is_record (merge_edit e f item t)" by (simp add: merge_edit_def)
  moreover have "truthy (or_empty (get_prop (merge_edit e f item t) ''id''))"
    "truthy (or_empty (get_prop (merge_edit e f item t) ''created_at''))"
    "get_prop (merge_edit e f item t) ''updated_at'' \<noteq> None"
    using assms by (simp_all add: get_prop_merge_edit normal_record_def)
  ultimately show ?thesis by (simp add: normal_record_def merge_edit_strings)
qed

lemma saveEdit_plain:
  assumes "plain_store (db w)"
  shows "plain_store (db (snd (saveEdit f w)))"
proof (cases "map_of (db w) (KStr (eId f))")
  case None
  then show ?thesis using assms by (simp add: saveEdit_def Let_def getEntry_def)
next
  case (Some e)
  then have "(KStr (eId f), e) \<in> set (db w)" by (rule map_of_SomeD)
  then have n: "normal_record e" and k: "entry_key e = Some (KStr (eId f))"
    using assms by (auto simp: plain_store_def list_all_iff)
  have "plain_store (store_put (KStr (eId f)) (merge_edit e f item t) (db w))" for item t
    using assms by (intro store_put_plain) (simp_all add: entry_key_merge_edit k merge_edit_normal n)
  then show ?thesis
    using assms Some k
    by (simp add: saveEdit_def Let_def getEntry_def nowISO_def putEntry_def entry_key_merge_edit)
qed

lemma confirmDelete_plain:
  "plain_store (db w) \<Longrightarrow> plain_store (db (snd (confirmDelete i ok w)))"
  by (simp add: confirmDelete_def deleteEntry_def store_delete_plain)

lemma plain_store_empty: "plain_store []"
  by (simp add: plain_store_def)

lemma env_ok_kept:
  "env_ok w \<Longrightarrow> env_ok (snd (logForm_submit f w))"
  "env_ok w \<Longrightarrow> env_ok (snd (saveEdit g w))"
  "env_ok w \<Longrightarrow> env_ok (snd (confirmDelete i ok w))"
  by (auto simp: env_ok_def logForm_submit_def saveEdit_def confirmDelete_def Let_def uuid_def
      nowISO_def split: sum.splits prod.splits)

end
